theory Spec2Isabelle
  imports Complex_Main "HOL-Library.Word" "HOL-Library.AList"
begin

unbundle bit_operations_syntax

section \<open>Data model\<close>

text \<open>
  A grid position is the JavaScript object \<^verbatim>\<open>{x, y}\<close>, modelled as the pair
  \<open>(x, y)\<close> of integers. The string keys \<^verbatim>\<open>`${x},${y}`\<close> of the source's
  \<^verbatim>\<open>Map\<close>s and \<^verbatim>\<open>Set\<close>s are injective on integer pairs, so a key is the
  position itself. Reading a property of \<^verbatim>\<open>undefined\<close> raises a
  \<^verbatim>\<open>TypeError\<close>; that is the only exception the modelled code can raise.
\<close>

type_synonym pos = "int \<times> int"

datatype error = TypeError

text \<open>
  The controller object of class \<^verbatim>\<open>SnakeAI\<close>. \<open>cycleMap\<close> is the
  \<^verbatim>\<open>Map\<close> from position key to cycle index, as an association list in
  insertion order.
\<close>

record SnakeAI =
  cols :: int
  rows :: int
  hamiltonianCycle :: "pos list"
  cycleMap :: "(pos \<times> nat) list"
  isInitialized :: bool
  seed :: int

text \<open>
  The constructor: \<^verbatim>\<open>this.seed = seed || Date.now()\<close>. A seed of \<open>0\<close> is
  falsy, so the clock reading \<open>now\<close> replaces it.
\<close>

definition SnakeAI_new :: "int \<Rightarrow> int \<Rightarrow> int \<Rightarrow> int \<Rightarrow> SnakeAI" where
  "SnakeAI_new c r s now =
     \<lparr>cols = c, rows = r, hamiltonianCycle = [], cycleMap = [],
      isInitialized = False, seed = (if s = 0 then now else s)\<rparr>"

section \<open>DeterministicRandom\<close>

text \<open>
  \<^verbatim>\<open>random()\<close> adds \<^verbatim>\<open>0x6D2B79F5\<close> to the seed (a double addition, exact
  while the seed stays below \<open>2^53\<close>, hence an unbounded integer here), converts
  to 32 bits and mixes. The result is the float \<open>k / 2^32\<close>; the model returns
  the numerator \<open>k\<close>, an unsigned 32-bit value.
\<close>

definition mix32 :: "32 word \<Rightarrow> 32 word" where
  "mix32 t0 =
     (let t1 = (t0 XOR drop_bit 15 t0) * (t0 OR 1);
          t2 = t1 XOR (t1 + (t1 XOR drop_bit 7 t1) * (t1 OR 61))
      in t2 XOR drop_bit 14 t2)"

definition random :: "SnakeAI \<Rightarrow> int \<times> SnakeAI" where
  "random ai =
     (let s = seed ai + 0x6D2B79F5
      in (uint (mix32 (word_of_int s)), ai\<lparr>seed := s\<rparr>))"

text \<open>\<^verbatim>\<open>Math.floor(r * n)\<close> for the float \<open>r = k / 2^32\<close> and an integer \<open>n\<close>.\<close>

definition floorMul :: "int \<Rightarrow> int \<Rightarrow> int" where
  "floorMul k n = (k * n) div 4294967296"

section \<open>CycleBuilder\<close>

type_synonym wall = "pos \<times> pos"

definition dirs :: "pos list" where
  "dirs = [(0, -1), (0, 1), (-1, 0), (1, 0)]"

definition addWalls :: "pos \<Rightarrow> int \<Rightarrow> int \<Rightarrow> wall list \<Rightarrow> wall list" where
  "addWalls node w h walls =
     walls @ map (\<lambda>d. (node, (fst node + fst d, snd node + snd d)))
       (filter (\<lambda>d. let nx = fst node + fst d; ny = snd node + snd d
                     in 0 \<le> nx \<and> nx < w \<and> 0 \<le> ny \<and> ny < h) dirs)"

definition grid :: "int \<Rightarrow> int \<Rightarrow> pos set" where
  "grid w h = {0..<w} \<times> {0..<h}"

definition endpoints :: "wall list \<Rightarrow> pos set" where
  "endpoints walls = fst ` set walls \<union> snd ` set walls"

text \<open>
  The \<^verbatim>\<open>while (walls.length > 0)\<close> loop of \<^verbatim>\<open>generateMST\<close>.
  \<^verbatim>\<open>walls.splice(randIdx, 1)[0]\<close> removes and returns the wall at
  \<open>randIdx\<close>; were the index out of range it would return \<^verbatim>\<open>undefined\<close>
  and the next line would raise.
\<close>

function mstLoop ::
  "int \<Rightarrow> int \<Rightarrow> SnakeAI \<Rightarrow> pos list \<Rightarrow> wall list \<Rightarrow> wall list \<Rightarrow> error + (wall list \<times> SnakeAI)"
where
  "mstLoop w h ai visited walls mstEdges =
     (if walls = [] then Inr (mstEdges, ai)
      else
        let (r, ai') = random ai;
            randIdx = nat (floorMul r (int (length walls)))
        in if length walls \<le> randIdx then Inl TypeError
           else
             let wall = walls ! randIdx;
                 walls' = take randIdx walls @ drop (Suc randIdx) walls;
                 uVis = fst wall \<in> set visited;
                 vVis = snd wall \<in> set visited
             in if uVis \<noteq> vVis then
                  let unvisited = (if uVis then snd wall else fst wall)
                  in mstLoop w h ai' (visited @ [unvisited])
                       (addWalls unvisited w h walls') (mstEdges @ [wall])
                else mstLoop w h ai' visited walls' mstEdges)"
  by pat_completeness auto

lemma finite_grid: "finite (grid w h)"
  by (simp add: grid_def)

lemma finite_endpoints: "finite (endpoints ws)"
  by (simp add: endpoints_def)

lemma endpoints_remove:
  "i < length ws \<Longrightarrow> endpoints (take i ws @ drop (Suc i) ws) \<subseteq> endpoints ws"
  by (auto simp: endpoints_def dest: in_set_takeD in_set_dropD)

lemma endpoints_addWalls:
  "endpoints (addWalls n w h ws) \<subseteq> endpoints ws \<union> {n} \<union> grid w h"
  by (auto simp: endpoints_def addWalls_def grid_def Let_def)

lemma length_addWalls: "length (addWalls n w h ws) \<le> length ws + 4"
proof -
  have "length (filter P dirs) \<le> 4" for P
    using length_filter_le [of P dirs] by (simp add: dirs_def)
  then show ?thesis by (simp add: addWalls_def)
qed

termination mstLoop
proof (relation "measure (\<lambda>(w, h, ai, visited, walls, mstEdges).
         5 * card ((grid w h \<union> endpoints walls) - set visited) + length walls)",
       goal_cases)
  case 1
  show ?case by simp
next
  case (2 w h ai visited walls mstEdges x r ai' randIdx wall walls' uVis vVis unvisited)
  let ?U = "(grid w h \<union> endpoints walls) - set visited"
  let ?U' = "(grid w h \<union> endpoints (addWalls unvisited w h walls')) - set (visited @ [unvisited])"
  from 2 have idx: "randIdx < length walls" by simp
  from 2 have wall: "wall = walls ! randIdx" by simp
  from 2 have walls': "walls' = take randIdx walls @ drop (Suc randIdx) walls" by simp
  have wall_in: "wall \<in> set walls" using idx wall by simp
  have unv: "unvisited = fst wall \<or> unvisited = snd wall" using 2 by (simp split: if_splits)
  have unv_not: "unvisited \<notin> set visited" using 2 by (auto split: if_splits)
  have unv_in: "unvisited \<in> ?U"
    using unv unv_not wall_in by (auto simp: endpoints_def)
  have "endpoints walls' \<subseteq> endpoints walls"
    unfolding walls' by (rule endpoints_remove [OF idx])
  with endpoints_addWalls [of unvisited w h walls']
  have sub: "?U' \<subseteq> ?U - {unvisited}" by auto
  have fin: "finite ?U" by (simp add: finite_grid finite_endpoints)
  have "card ?U' \<le> card (?U - {unvisited})"
    by (rule card_mono) (use fin sub in auto)
  also have "\<dots> = card ?U - 1" using unv_in fin by simp
  finally have c: "card ?U' + 1 \<le> card ?U"
    using unv_in fin card_gt_0_iff [of ?U] by fastforce
  have "length walls' = length walls - 1" using idx by (simp add: walls')
  with length_addWalls [of unvisited w h walls']
  have l: "length (addWalls unvisited w h walls') \<le> length walls + 3" using idx by simp
  from c l show ?case by simp
next
  case (3 w h ai visited walls mstEdges x r ai' randIdx wall walls' uVis vVis)
  from 3 have idx: "randIdx < length walls" by simp
  from 3 have walls': "walls' = take randIdx walls @ drop (Suc randIdx) walls" by simp
  let ?U = "(grid w h \<union> endpoints walls) - set visited"
  let ?U' = "(grid w h \<union> endpoints walls') - set visited"
  have "endpoints walls' \<subseteq> endpoints walls"
    unfolding walls' by (rule endpoints_remove [OF idx])
  then have "?U' \<subseteq> ?U" by auto
  then have "card ?U' \<le> card ?U"
    by (intro card_mono) (simp_all add: finite_grid finite_endpoints)
  moreover have "length walls' < length walls" using idx by (simp add: walls')
  ultimately show ?case by simp
qed

declare mstLoop.simps [simp del]

text \<open>
  \<^verbatim>\<open>generateMST\<close>: the start cell is drawn with two calls of \<^verbatim>\<open>random()\<close>
  (\<open>x\<close> first), marked visited, and its walls are queued.
\<close>

definition generateMST :: "SnakeAI \<Rightarrow> int \<Rightarrow> int \<Rightarrow> error + (wall list \<times> SnakeAI)" where
  "generateMST ai w h =
     (let (r1, ai1) = random ai;
          (r2, ai2) = random ai1;
          start = (floorMul r1 w, floorMul r2 h)
      in mstLoop w h ai2 [start] (addWalls start w h []) [])"

text \<open>
  The adjacency table \<^verbatim>\<open>links\<close> of \<^verbatim>\<open>mstToCycle\<close>: a \<^verbatim>\<open>Map\<close> from a
  position to the array of its linked positions, as an association list in
  insertion order (\<^verbatim>\<open>get\<close> is \<open>map_of\<close>, \<^verbatim>\<open>set\<close> is \<open>AList.update\<close>).
  \<^verbatim>\<open>links.get\<close> of a missing key is \<^verbatim>\<open>undefined\<close>, and \<^verbatim>\<open>unlink\<close>
  raises when it filters it.
\<close>

type_synonym links = "(pos \<times> pos list) list"

definition ensureKey :: "links \<Rightarrow> pos \<Rightarrow> links" where
  "ensureKey links p = (if map_of links p = None then AList.update p [] links else links)"

definition pushLink :: "links \<Rightarrow> pos \<Rightarrow> pos \<Rightarrow> links" where
  "pushLink links a b =
     (case map_of links a of None \<Rightarrow> links | Some xs \<Rightarrow> AList.update a (xs @ [b]) links)"

definition link :: "links \<Rightarrow> pos \<Rightarrow> pos \<Rightarrow> links" where
  "link links a b = pushLink (pushLink (ensureKey (ensureKey links a) b) a b) b a"

definition unlink :: "links \<Rightarrow> pos \<Rightarrow> pos \<Rightarrow> error + links" where
  "unlink links a b =
     (case map_of links a of
        None \<Rightarrow> Inl TypeError
      | Some xa \<Rightarrow>
          (case map_of links b of
             None \<Rightarrow> Inl TypeError
           | Some xb \<Rightarrow>
               Inr (AList.update b (filter (\<lambda>p. p \<noteq> a) xb)
                      (AList.update a (filter (\<lambda>p. p \<noteq> b) xa) links))))"

definition swapLinks :: "links \<Rightarrow> pos \<Rightarrow> pos \<Rightarrow> pos \<Rightarrow> pos \<Rightarrow> error + links" where
  "swapLinks links a1 a2 b1 b2 =
     (case unlink links a1 a2 of
        Inl e \<Rightarrow> Inl e
      | Inr l1 \<Rightarrow>
          (case unlink l1 b1 b2 of
             Inl e \<Rightarrow> Inl e
           | Inr l2 \<Rightarrow> Inr (link (link l2 a1 b1) a2 b2)))"

text \<open>The four links of the 2x2 block of coarse cell \<open>(cx, cy)\<close>.\<close>

definition linkBlock :: "pos \<Rightarrow> links \<Rightarrow> links" where
  "linkBlock c links =
     (let cx = fst c; cy = snd c;
          tl = (2 * cx, 2 * cy); tr = (2 * cx + 1, 2 * cy);
          bl = (2 * cx, 2 * cy + 1); br = (2 * cx + 1, 2 * cy + 1)
      in link (link (link (link links tl tr) tr br) br bl) bl tl)"

definition coarseCells :: "int \<Rightarrow> int \<Rightarrow> pos list" where
  "coarseCells w h = concat (map (\<lambda>cx. map (\<lambda>cy. (cx, cy)) [0..h - 1]) [0..w - 1])"

definition initLinks :: "int \<Rightarrow> int \<Rightarrow> links" where
  "initLinks w h = fold linkBlock (coarseCells w h) []"

definition applyEdge :: "links \<Rightarrow> wall \<Rightarrow> error + links" where
  "applyEdge links e =
     (let ux = fst (fst e); uy = snd (fst e); vx = fst (snd e); vy = snd (snd e);
          dx = vx - ux; dy = vy - uy
      in if dx = 1 then
           swapLinks links (2 * ux + 1, 2 * uy) (2 * ux + 1, 2 * uy + 1) (2 * vx, 2 * vy) (2 * vx, 2 * vy + 1)
         else if dx = -1 then
           swapLinks links (2 * ux, 2 * uy) (2 * ux, 2 * uy + 1) (2 * vx + 1, 2 * vy) (2 * vx + 1, 2 * vy + 1)
         else if dy = 1 then
           swapLinks links (2 * ux, 2 * uy + 1) (2 * ux + 1, 2 * uy + 1) (2 * vx, 2 * vy) (2 * vx + 1, 2 * vy)
         else if dy = -1 then
           swapLinks links (2 * ux, 2 * uy) (2 * ux + 1, 2 * uy) (2 * vx, 2 * vy + 1) (2 * vx + 1, 2 * vy + 1)
         else Inr links)"

fun applyEdges :: "links \<Rightarrow> wall list \<Rightarrow> error + links" where
  "applyEdges links [] = Inr links"
| "applyEdges links (e # es) =
     (case applyEdge links e of Inl err \<Rightarrow> Inl err | Inr l \<Rightarrow> applyEdges l es)"

text \<open>
  The traversal loop. \<open>cur\<close> (the source's \<^verbatim>\<open>curr\<close>) and \<open>prev\<close> may be \<^verbatim>\<open>undefined\<close> (\<open>None\<close>):
  \<^verbatim>\<open>neighbors[1]\<close> of a one-element array, or \<^verbatim>\<open>links.get(`0,0`)[0]\<close> of an
  empty one. Reading \<^verbatim>\<open>.x\<close> of \<^verbatim>\<open>undefined\<close> raises; a position with no
  entry in \<^verbatim>\<open>links\<close> ends the loop (\<^verbatim>\<open>break\<close>).
\<close>

definition nthOpt :: "'a list \<Rightarrow> nat \<Rightarrow> 'a option" where
  "nthOpt xs i = (if i < length xs then Some (xs ! i) else None)"

fun traverse :: "links \<Rightarrow> nat \<Rightarrow> pos option \<Rightarrow> pos option \<Rightarrow> pos list \<Rightarrow> error + pos list" where
  "traverse links 0 cur prev cycle = Inr cycle"
| "traverse links (Suc n) cur prev cycle =
     (case cur of
        None \<Rightarrow> Inl TypeError
      | Some c \<Rightarrow>
          (case map_of links c of
             None \<Rightarrow> Inr (cycle @ [c])
           | Some neighbors \<Rightarrow>
               (case nthOpt neighbors 0 of
                  None \<Rightarrow> Inl TypeError
                | Some n0 \<Rightarrow>
                    (case prev of
                       None \<Rightarrow> Inl TypeError
                     | Some p \<Rightarrow>
                         traverse links n (if n0 = p then nthOpt neighbors 1 else Some n0)
                           (Some c) (cycle @ [c])))))"

definition mstToCycle :: "SnakeAI \<Rightarrow> wall list \<Rightarrow> int \<Rightarrow> int \<Rightarrow> error + pos list" where
  "mstToCycle ai mstEdges w h =
     (case applyEdges (initLinks w h) mstEdges of
        Inl e \<Rightarrow> Inl e
      | Inr links \<Rightarrow>
          (case map_of links (0, 0) of
             None \<Rightarrow> Inl TypeError
           | Some l0 \<Rightarrow> traverse links (nat (cols ai * rows ai)) (Some (0, 0)) (nthOpt l0 0) []))"

text \<open>
  \<^verbatim>\<open>cycleMap.clear()\<close> followed by \<^verbatim>\<open>forEach((pos, index) => cycleMap.set(...))\<close>.
\<close>

definition buildCycleMap :: "pos list \<Rightarrow> (pos \<times> nat) list" where
  "buildCycleMap cycle =
     fold (\<lambda>(p, i) m. AList.update p i m) (zip cycle [0..<length cycle]) []"

text \<open>
  \<^verbatim>\<open>generateHamiltonianCycle\<close>. It is only called by \<^verbatim>\<open>init\<close>, after the
  parity check, so \<^verbatim>\<open>this.cols / 2\<close> is the integer quotient.
\<close>

definition generateHamiltonianCycle :: "SnakeAI \<Rightarrow> error + SnakeAI" where
  "generateHamiltonianCycle ai =
     (let w = cols ai div 2; h = rows ai div 2
      in case generateMST ai w h of
           Inl e \<Rightarrow> Inl e
         | Inr (mst, ai') \<Rightarrow>
             (case mstToCycle ai' mst w h of
                Inl e \<Rightarrow> Inl e
              | Inr cycle \<Rightarrow>
                  Inr (ai'\<lparr>hamiltonianCycle := cycle, cycleMap := buildCycleMap cycle\<rparr>)))"

text \<open>
  \<^verbatim>\<open>init\<close>: with an odd dimension it logs an error and returns, leaving the
  controller uninitialised with an empty cycle.
\<close>

definition init :: "SnakeAI \<Rightarrow> error + SnakeAI" where
  "init ai =
     (if cols ai mod 2 \<noteq> 0 \<or> rows ai mod 2 \<noteq> 0 then Inr ai
      else case generateHamiltonianCycle ai of
             Inl e \<Rightarrow> Inl e
           | Inr ai' \<Rightarrow> Inr (ai'\<lparr>isInitialized := True\<rparr>))"

definition getCycleIndex :: "SnakeAI \<Rightarrow> pos \<Rightarrow> nat option" where
  "getCycleIndex ai p = map_of (cycleMap ai) p"

section \<open>PathAI\<close>

text \<open>
  \<^verbatim>\<open>getNeighbors\<close>: the in-grid neighbours of a cell, in the order up, down,
  left, right of \<open>dirs\<close>.
\<close>

definition getNeighbors :: "SnakeAI \<Rightarrow> pos \<Rightarrow> pos list" where
  "getNeighbors ai node =
     map (\<lambda>d. (fst node + fst d, snd node + snd d))
       (filter (\<lambda>d. let nx = fst node + fst d; ny = snd node + snd d
                     in 0 \<le> nx \<and> nx < cols ai \<and> 0 \<le> ny \<and> ny < rows ai) dirs)"

text \<open>
  \<^verbatim>\<open>getDangerScore\<close>: the double loop over \<open>dy, dx \<in> {-2..2}\<close>, the centre
  skipped. The \<^verbatim>\<open>Set\<close> of obstacle keys is a list read through membership.
\<close>

definition dangerOffsets :: "pos list" where
  "dangerOffsets =
     filter (\<lambda>d. \<not> (fst d = 0 \<and> snd d = 0))
       (concat (map (\<lambda>dy. map (\<lambda>dx. (dx, dy)) [-2..2]) [-2..2]))"

definition dangerAt :: "SnakeAI \<Rightarrow> pos \<Rightarrow> pos list \<Rightarrow> pos \<Rightarrow> int" where
  "dangerAt ai p obstaclesSet d =
     (let cx = fst p + fst d; cy = snd p + snd d
      in if cx < 0 \<or> cols ai \<le> cx \<or> cy < 0 \<or> rows ai \<le> cy then 5
         else if (cx, cy) \<in> set obstaclesSet then
           (if \<bar>fst d\<bar> + \<bar>snd d\<bar> = 1 then 20 else 10)
         else 0)"

definition getDangerScore :: "SnakeAI \<Rightarrow> pos \<Rightarrow> pos list \<Rightarrow> int" where
  "getDangerScore ai p obstaclesSet = sum_list (map (dangerAt ai p obstaclesSet) dangerOffsets)"

text \<open>
  Cycle index arithmetic. An index is \<^verbatim>\<open>undefined\<close> (\<open>None\<close>) for a position
  outside \<open>cycleMap\<close>; arithmetic on it gives \<^verbatim>\<open>NaN\<close>, as does \<^verbatim>\<open>% 0\<close>,
  and every comparison with \<^verbatim>\<open>NaN\<close> is false.
\<close>

definition cycleNext :: "SnakeAI \<Rightarrow> nat option \<Rightarrow> nat option" where
  "cycleNext ai idx =
     (case idx of
        None \<Rightarrow> None
      | Some i \<Rightarrow>
          (if length (hamiltonianCycle ai) = 0 then None
           else Some ((i + 1) mod length (hamiltonianCycle ai))))"

definition cycleAt :: "SnakeAI \<Rightarrow> nat option \<Rightarrow> pos option" where
  "cycleAt ai idx = (case idx of None \<Rightarrow> None | Some i \<Rightarrow> nthOpt (hamiltonianCycle ai) i)"

text \<open>
  \<^verbatim>\<open>(aIdx - headIdx + length) % length\<close>. Indices stored in \<open>cycleMap\<close> are
  below the length, so the dividend is positive and the JavaScript remainder is
  the mathematical one.
\<close>

definition cyclicDist :: "SnakeAI \<Rightarrow> nat option \<Rightarrow> nat \<Rightarrow> int option" where
  "cyclicDist ai aIdx headIdx =
     (case aIdx of
        None \<Rightarrow> None
      | Some a \<Rightarrow>
          (if length (hamiltonianCycle ai) = 0 then None
           else Some ((int a - int headIdx + int (length (hamiltonianCycle ai)))
                        mod int (length (hamiltonianCycle ai)))))"

text \<open>
  \<^verbatim>\<open>isSafePath\<close>. The callback of \<^verbatim>\<open>obstacles.some\<close> reads \<^verbatim>\<open>pos.x\<close>, which
  raises for an \<^verbatim>\<open>undefined\<close> position, but only when there is an obstacle
  to run the callback on.
\<close>

fun isSafePathLoop :: "SnakeAI \<Rightarrow> nat option \<Rightarrow> nat \<Rightarrow> pos list \<Rightarrow> error + bool" where
  "isSafePathLoop ai currentIdx 0 obstacles = Inr True"
| "isSafePathLoop ai currentIdx (Suc n) obstacles =
     (let idx' = cycleNext ai currentIdx
      in if obstacles = [] then isSafePathLoop ai idx' n obstacles
         else case cycleAt ai idx' of
                None \<Rightarrow> Inl TypeError
              | Some p \<Rightarrow>
                  (if p \<in> set obstacles then Inr False
                   else isSafePathLoop ai idx' n obstacles))"

definition isSafePath :: "SnakeAI \<Rightarrow> pos \<Rightarrow> nat \<Rightarrow> pos list \<Rightarrow> error + bool" where
  "isSafePath ai startPos steps obstacles =
     isSafePathLoop ai (getCycleIndex ai startPos) steps obstacles"

text \<open>
  \<^verbatim>\<open>floodFill\<close>: breadth-first, one cell dequeued per iteration, at most 300
  iterations. The inner \<^verbatim>\<open>forEach\<close> enqueues each free, unvisited neighbour.
\<close>

definition floodVisit :: "pos list \<Rightarrow> pos \<Rightarrow> pos list \<times> pos list \<Rightarrow> pos list \<times> pos list" where
  "floodVisit obstacles n qv =
     (if n \<notin> set obstacles \<and> n \<notin> set (snd qv) then (fst qv @ [n], snd qv @ [n]) else qv)"

function floodLoop :: "SnakeAI \<Rightarrow> pos list \<Rightarrow> pos list \<Rightarrow> pos list \<Rightarrow> nat \<Rightarrow> nat" where
  "floodLoop ai obstacles queue visited count =
     (if queue \<noteq> [] \<and> count < 300 then
        let qv = fold (floodVisit obstacles) (getNeighbors ai (hd queue)) (tl queue, visited)
        in floodLoop ai obstacles (fst qv) (snd qv) (Suc count)
      else count)"
  by pat_completeness auto
termination
  by (relation "measure (\<lambda>(ai, obstacles, queue, visited, count). 300 - count)") auto

declare floodLoop.simps [simp del]

definition floodFill :: "SnakeAI \<Rightarrow> pos \<Rightarrow> pos list \<Rightarrow> nat" where
  "floodFill ai start obstacles = floodLoop ai obstacles [start] [start] 0"

text \<open>
  The object returned by \<^verbatim>\<open>getNextMove\<close>:
  \<^verbatim>\<open>{x, y, type, reason, score}\<close>, the last two absent on some paths.
\<close>

datatype move =
  Move (move_x: int) (move_y: int) (move_type: string)
       (move_reason: "string option") (move_score: "int option")

text \<open>
  \<^verbatim>\<open>survive\<close>: the best free neighbour so far with its score; \<open>None\<close> is the
  initial \<^verbatim>\<open>bestMove = null, bestScore = -Infinity\<close>.
\<close>

definition surviveScore :: "SnakeAI \<Rightarrow> pos list \<Rightarrow> pos list \<Rightarrow> pos \<Rightarrow> int" where
  "surviveScore ai snake obstaclesSet n =
     int (floodFill ai n (obstaclesSet @ snake)) - getDangerScore ai n obstaclesSet * 2"

definition surviveStep ::
  "SnakeAI \<Rightarrow> pos list \<Rightarrow> pos list \<Rightarrow> pos \<Rightarrow> (pos \<times> int) option \<Rightarrow> (pos \<times> int) option" where
  "surviveStep ai snake obstaclesSet n best =
     (if n \<notin> set snake \<and> n \<notin> set obstaclesSet then
        (let score = surviveScore ai snake obstaclesSet n
         in case best of
              None \<Rightarrow> Some (n, score)
            | Some (bestMove, bestScore) \<Rightarrow>
                (if bestScore < score then Some (n, score) else best))
      else best)"

definition survive :: "SnakeAI \<Rightarrow> pos \<Rightarrow> pos list \<Rightarrow> pos list \<Rightarrow> string \<Rightarrow> move option" where
  "survive ai head snake obstaclesSet reason =
     (case fold (surviveStep ai snake obstaclesSet) (getNeighbors ai head) None of
        None \<Rightarrow> None
      | Some (bestMove, bestScore) \<Rightarrow>
          Some (Move (fst bestMove - fst head) (snd bestMove - snd head) ''survival''
                  (Some reason) (Some bestScore)))"

text \<open>
  \<^verbatim>\<open>findNearestFood\<close>. \<open>sharedTargets\<close> is the \<^verbatim>\<open>Map\<close> from snake id to
  claimed food index, an association list in insertion order; \<open>None\<close> is
  \<^verbatim>\<open>null\<close>. The accumulator holds \<^verbatim>\<open>minCycleDist\<close> (\<open>None\<close> for
  \<^verbatim>\<open>Infinity\<close>) and \<^verbatim>\<open>nearest\<close> with \<^verbatim>\<open>nearestIdx\<close>.
\<close>

type_synonym targets = "(int \<times> nat) list"

definition taken :: "targets option \<Rightarrow> int \<Rightarrow> nat \<Rightarrow> bool" where
  "taken sharedTargets snakeId i =
     (case sharedTargets of
        None \<Rightarrow> False
      | Some ts \<Rightarrow> list_ex (\<lambda>(oid, tidx). oid \<noteq> snakeId \<and> tidx = i) ts)"

definition foodDist :: "SnakeAI \<Rightarrow> pos \<Rightarrow> pos \<Rightarrow> int option" where
  "foodDist ai head f =
     (case (getCycleIndex ai f, getCycleIndex ai head) of
        (Some fIdx, Some headIdx) \<Rightarrow>
          (let dst = int fIdx - int headIdx
           in Some (if dst < 0 then dst + int (length (hamiltonianCycle ai)) else dst))
      | _ \<Rightarrow> None)"

definition nearestStep ::
  "SnakeAI \<Rightarrow> pos \<Rightarrow> int \<Rightarrow> targets option \<Rightarrow> pos \<times> nat \<Rightarrow>
     (int \<times> pos \<times> nat) option \<Rightarrow> (int \<times> pos \<times> nat) option" where
  "nearestStep ai head snakeId sharedTargets fi acc =
     (if taken sharedTargets snakeId (snd fi) then acc
      else case foodDist ai head (fst fi) of
             None \<Rightarrow> acc
           | Some dst \<Rightarrow>
               (case acc of
                  None \<Rightarrow> Some (dst, fst fi, snd fi)
                | Some (minCycleDist, nearest, nearestIdx) \<Rightarrow>
                    (if dst < minCycleDist then Some (dst, fst fi, snd fi) else acc)))"

definition nearestScan ::
  "SnakeAI \<Rightarrow> pos \<Rightarrow> pos list \<Rightarrow> int \<Rightarrow> targets option \<Rightarrow> (int \<times> pos \<times> nat) option" where
  "nearestScan ai head foods snakeId sharedTargets =
     fold (nearestStep ai head snakeId sharedTargets) (zip foods [0..<length foods]) None"

definition findNearestFood ::
  "SnakeAI \<Rightarrow> pos \<Rightarrow> pos list \<Rightarrow> int \<Rightarrow> targets option \<Rightarrow> pos option \<times> targets option" where
  "findNearestFood ai head foods snakeId sharedTargets =
     (case nearestScan ai head foods snakeId sharedTargets of
        None \<Rightarrow> (None, sharedTargets)
      | Some (minCycleDist, nearest, nearestIdx) \<Rightarrow>
          (Some nearest,
           (case sharedTargets of
              None \<Rightarrow> None
            | Some ts \<Rightarrow>
                (if snakeId \<noteq> -1 then Some (AList.update snakeId nearestIdx ts) else Some ts))))"

text \<open>
  \<^verbatim>\<open>findShortcut\<close>: the first neighbour that passes every \<^verbatim>\<open>continue\<close>
  guard and the final distance test. \<^verbatim>\<open>snake.some((p, i) => i < snake.length - 1
  && ...)\<close> is membership in the body without its last cell.
\<close>

definition shortcutOk ::
  "SnakeAI \<Rightarrow> nat \<Rightarrow> int option \<Rightarrow> int option \<Rightarrow> pos list \<Rightarrow> pos list \<Rightarrow> pos \<Rightarrow> bool" where
  "shortcutOk ai headIdx targetDist tailDist snake obstaclesSet n =
     (n \<notin> set obstaclesSet \<and>
      \<not> 15 < getDangerScore ai n obstaclesSet \<and>
      getCycleIndex ai n \<noteq> None \<and> n \<notin> set (butlast snake) \<and>
      (case (cyclicDist ai (getCycleIndex ai n) headIdx, targetDist, tailDist) of
         (Some nDist, Some td, Some tld) \<Rightarrow> nDist < td \<and> 1 < nDist \<and> nDist < tld
       | _ \<Rightarrow> False))"

definition findShortcut ::
  "SnakeAI \<Rightarrow> pos \<Rightarrow> nat \<Rightarrow> pos \<Rightarrow> nat option \<Rightarrow> pos list \<Rightarrow> pos list \<Rightarrow> error + pos option" where
  "findShortcut ai head headIdx food foodIdx snake obstaclesSet =
     (case snake of
        [] \<Rightarrow> Inl TypeError
      | _ # _ \<Rightarrow>
          Inr (find (shortcutOk ai headIdx (cyclicDist ai foodIdx headIdx)
                       (cyclicDist ai (getCycleIndex ai (last snake)) headIdx) snake obstaclesSet)
                 (getNeighbors ai head)))"

text \<open>
  \<^verbatim>\<open>getNextMove\<close>. It returns the move (\<open>None\<close> for \<^verbatim>\<open>null\<close>) with the
  controller (which \<^verbatim>\<open>init\<close> may have changed) and the claims table (which
  \<^verbatim>\<open>findNearestFood\<close> may have changed). With an \<^verbatim>\<open>undefined\<close> head
  index \<^verbatim>\<open>nextIndex\<close> is \<^verbatim>\<open>NaN\<close>, \<^verbatim>\<open>nextPos\<close> is \<^verbatim>\<open>undefined\<close> and
  \<^verbatim>\<open>nextPos.x\<close> raises.
\<close>

definition getNextMove ::
  "SnakeAI \<Rightarrow> pos list \<Rightarrow> pos list \<Rightarrow> pos option \<Rightarrow> pos list \<Rightarrow> int \<Rightarrow> targets option \<Rightarrow>
     error + (move option \<times> SnakeAI \<times> targets option)" where
  "getNextMove ai0 snake foods poison obstacles snakeId sharedTargets =
     (case (if \<not> isInitialized ai0 then init ai0 else Inr ai0) of
        Inl e \<Rightarrow> Inl e
      | Inr ai \<Rightarrow>
          (case snake of
             [] \<Rightarrow> Inl TypeError
           | head # _ \<Rightarrow>
               (let obstaclesSet = obstacles @ (case poison of None \<Rightarrow> [] | Some p \<Rightarrow> [p])
                in case getCycleIndex ai head of
                     None \<Rightarrow> Inl TypeError
                   | Some headIndex \<Rightarrow>
                  (case cycleAt ai (cycleNext ai (Some headIndex)) of
                     None \<Rightarrow> Inl TypeError
                   | Some nextPos \<Rightarrow>
                       (if nextPos \<in> set obstaclesSet then
                          Inr (survive ai head snake obstaclesSet ''Immediate Blockage'', ai, sharedTargets)
                        else case isSafePath ai head 5 obstacles of
                               Inl e \<Rightarrow> Inl e
                             | Inr safe \<Rightarrow>
                                 (if \<not> safe then
                                    Inr (survive ai head snake obstaclesSet ''Path Blocked Ahead'', ai,
                                         sharedTargets)
                                  else
                                    (let (targetFood, targets') =
                                           findNearestFood ai head foods snakeId sharedTargets;
                                         cycleMove = Move (fst nextPos - fst head) (snd nextPos - snd head)
                                                       ''cycle'' None None
                                     in case targetFood of
                                          None \<Rightarrow> Inr (Some cycleMove, ai, targets')
                                        | Some food \<Rightarrow>
                                            (case findShortcut ai head headIndex food
                                                    (getCycleIndex ai food) snake obstaclesSet of
                                               Inl e \<Rightarrow> Inl e
                                             | Inr None \<Rightarrow> Inr (Some cycleMove, ai, targets')
                                             | Inr (Some n) \<Rightarrow>
                                                 Inr (Some (Move (fst n - fst head) (snd n - snd head)
                                                              ''shortcut'' (Some ''Safe Shortcut'') None),
                                                      ai, targets')))))))))"

section \<open>WorldSimulation\<close>

text \<open>
  \<^verbatim>\<open>getStartState\<close>. The jitter \<open>seedOffset\<close> is a double, modelled as a
  rational; the rounding of the double sum is not modelled.
  \<^verbatim>\<open>(headIdx - i + length) % length\<close> is the JavaScript remainder, which takes
  the sign of the dividend and is \<^verbatim>\<open>NaN\<close> for a zero divisor; a negative or
  \<^verbatim>\<open>NaN\<close> array index reads \<^verbatim>\<open>undefined\<close>. \<^verbatim>\<open>snake[0].x - snake[1].x\<close>
  raises when one of the first two cells is \<^verbatim>\<open>undefined\<close>. An \<^verbatim>\<open>undefined\<close>
  third cell after two defined ones needs a cycle of one or two cells, which
  \<^verbatim>\<open>init\<close> never builds; the model raises there as well.
\<close>

definition jsMod1 :: "rat \<Rightarrow> rat" where
  "jsMod1 x = (if 0 \<le> x then frac x else - frac (- x))"

definition jsRem :: "int \<Rightarrow> int \<Rightarrow> int option" where
  "jsRem a b = (if b = 0 then None else Some (sgn a * (\<bar>a\<bar> mod \<bar>b\<bar>)))"

definition startCell :: "SnakeAI \<Rightarrow> int \<Rightarrow> int \<Rightarrow> pos option" where
  "startCell ai headIdx i =
     (case jsRem (headIdx - i + int (length (hamiltonianCycle ai))) (int (length (hamiltonianCycle ai))) of
        None \<Rightarrow> None
      | Some r \<Rightarrow> (if 0 \<le> r then nthOpt (hamiltonianCycle ai) (nat r) else None))"

definition startHeadIdx :: "SnakeAI \<Rightarrow> int \<Rightarrow> rat \<Rightarrow> int" where
  "startHeadIdx ai k seedOffset =
     \<lfloor>jsMod1 (of_int k / 4294967296 + seedOffset) * of_int (int (length (hamiltonianCycle ai)) - 3)\<rfloor>"

record startState =
  ss_snake :: "pos list"
  ss_dx :: int
  ss_dy :: int

definition getStartState :: "SnakeAI \<Rightarrow> rat \<Rightarrow> error + (startState \<times> SnakeAI)" where
  "getStartState ai0 seedOffset =
     (case (if \<not> isInitialized ai0 then init ai0 else Inr ai0) of
        Inl e \<Rightarrow> Inl e
      | Inr ai1 \<Rightarrow>
          (let (k, ai) = random ai1;
               headIdx = startHeadIdx ai k seedOffset
           in case (startCell ai headIdx 0, startCell ai headIdx 1, startCell ai headIdx 2) of
                (Some c0, Some c1, Some c2) \<Rightarrow>
                  Inr (\<lparr>ss_snake = [c0, c1, c2], ss_dx = fst c0 - fst c1, ss_dy = snd c0 - snd c1\<rparr>, ai)
              | _ \<Rightarrow> Inl TypeError))"

text \<open>
  A snake object and the module-level state of the background game.
  \<open>sid\<close> is the snake's \<^verbatim>\<open>id\<close>. \<^verbatim>\<open>Math.random()\<close>, the host's unseeded
  generator, is an environment stream \<open>rnd\<close> of rationals in \<open>[0, 1)\<close>;
  \<open>mathRandomCalls\<close> counts the values consumed so far.
\<close>

record snake =
  body :: "pos list"
  dx :: int
  dy :: int
  nextDx :: int
  nextDy :: int
  colorIndex :: nat
  sid :: int

record game =
  TILE_COLS :: int
  TILE_ROWS :: int
  snakes :: "snake list"
  foods :: "pos list"
  aiController :: "SnakeAI option"
  snakeTargets :: targets
  mathRandomCalls :: nat

definition snakeOf :: "startState \<Rightarrow> nat \<Rightarrow> int \<Rightarrow> snake" where
  "snakeOf st ci i =
     \<lparr>body = ss_snake st, dx = ss_dx st, dy = ss_dy st, nextDx = ss_dx st, nextDy = ss_dy st,
      colorIndex = ci, sid = i\<rparr>"

text \<open>
  \<^verbatim>\<open>spawnSingleFood\<close>: each attempt draws \<open>x\<close> then \<open>y\<close> from
  \<^verbatim>\<open>Math.random()\<close>; \<open>attempts\<close> counts up to 50.
\<close>

definition occupied :: "game \<Rightarrow> pos \<Rightarrow> bool" where
  "occupied g p = (list_ex (\<lambda>s. p \<in> set (body s)) (snakes g) \<or> p \<in> set (foods g))"

function spawnLoop :: "(nat \<Rightarrow> rat) \<Rightarrow> game \<Rightarrow> nat \<Rightarrow> game" where
  "spawnLoop rnd g attempts =
     (if attempts < 50 then
        let newFood = (\<lfloor>rnd (mathRandomCalls g) * of_int (TILE_COLS g)\<rfloor>,
                       \<lfloor>rnd (Suc (mathRandomCalls g)) * of_int (TILE_ROWS g)\<rfloor>);
            g' = g\<lparr>mathRandomCalls := mathRandomCalls g + 2\<rparr>
        in if \<not> occupied g newFood then g'\<lparr>foods := foods g @ [newFood]\<rparr>
           else spawnLoop rnd g' (Suc attempts)
      else g)"
  by pat_completeness auto
termination
  by (relation "measure (\<lambda>(rnd, g, attempts). 50 - attempts)") auto

declare spawnLoop.simps [simp del]

definition spawnSingleFood :: "(nat \<Rightarrow> rat) \<Rightarrow> game \<Rightarrow> game" where
  "spawnSingleFood rnd g = spawnLoop rnd g 0"

text \<open>
  \<^verbatim>\<open>maintainFoodCount\<close>: \<^verbatim>\<open>while (foods.length < 5) spawnSingleFood()\<close>. The
  loop has no bound of its own, so not returning is the value \<open>None\<close>.
\<close>

partial_function (option) maintainFoodCount :: "(nat \<Rightarrow> rat) \<Rightarrow> game \<Rightarrow> game option" where
  "maintainFoodCount rnd g =
     (if length (foods g) < 5 then maintainFoodCount rnd (spawnSingleFood rnd g) else Some g)"

declare maintainFoodCount.simps [code]

text \<open>
  \<^verbatim>\<open>initGame\<close>, up to the first \<^verbatim>\<open>gameTick\<close>: two snakes from
  \<^verbatim>\<open>getStartState(i * 0.5)\<close>, then the food. The result is \<open>None\<close> when
  the food loop does not return, \<open>Some (Inl e)\<close> when an exception escapes.
\<close>

definition initSnakes :: "SnakeAI \<Rightarrow> error + (snake list \<times> SnakeAI)" where
  "initSnakes ai =
     (case getStartState ai 0 of
        Inl e \<Rightarrow> Inl e
      | Inr (st0, ai1) \<Rightarrow>
          (case getStartState ai1 (1 / 2) of
             Inl e \<Rightarrow> Inl e
           | Inr (st1, ai2) \<Rightarrow> Inr ([snakeOf st0 0 0, snakeOf st1 1 1], ai2)))"

definition initGame :: "(nat \<Rightarrow> rat) \<Rightarrow> game \<Rightarrow> (error + game) option" where
  "initGame rnd g =
     (case aiController g of
        None \<Rightarrow> map_option Inr (maintainFoodCount rnd (g\<lparr>snakes := [], foods := []\<rparr>))
      | Some ai \<Rightarrow>
          (case initSnakes ai of
             Inl e \<Rightarrow> Some (Inl e)
           | Inr (ss, ai') \<Rightarrow>
               map_option Inr
                 (maintainFoodCount rnd (g\<lparr>snakes := ss, foods := [], aiController := Some ai'\<rparr>))))"

text \<open>
  \<^verbatim>\<open>resizeCanvas\<close>: the tile counts are rounded down to even, a controller is
  built on the clock seed, and the game is initialised.
\<close>

definition evenDown :: "int \<Rightarrow> int" where
  "evenDown n = (if n mod 2 \<noteq> 0 then n - 1 else n)"

definition resizeCanvas :: "(nat \<Rightarrow> rat) \<Rightarrow> int \<Rightarrow> int \<Rightarrow> int \<Rightarrow> nat \<Rightarrow> (error + game) option" where
  "resizeCanvas rnd width height now calls =
     (let c = evenDown (width div 40); r = evenDown (height div 40)
      in initGame rnd
           \<lparr>TILE_COLS = c, TILE_ROWS = r, snakes = [], foods = [],
            aiController = Some (SnakeAI_new c r now now), snakeTargets = [],
            mathRandomCalls = calls\<rparr>)"

text \<open>
  One iteration of the \<^verbatim>\<open>for\<close> loop of \<^verbatim>\<open>gameLoop\<close>, for the snake at
  index \<open>i\<close>. \<open>otherParts\<close> is the concatenation of the bodies of the snakes
  at the other indices, read from the \<^verbatim>\<open>snakes\<close> array as it stands when the
  iteration starts.
\<close>

definition otherParts :: "nat \<Rightarrow> snake list \<Rightarrow> pos list" where
  "otherParts i ss = concat (map body (take i ss @ drop (Suc i) ss))"

definition decide :: "nat \<Rightarrow> game \<Rightarrow> error + game" where
  "decide i g =
     (let s = snakes g ! i
      in case aiController g of
           None \<Rightarrow> Inr (g\<lparr>snakes := (snakes g)[i := s\<lparr>dx := nextDx s, dy := nextDy s\<rparr>]\<rparr>)
         | Some ai \<Rightarrow>
             (case getNextMove ai (body s) (foods g) None (otherParts i (snakes g)) (sid s)
                     (Some (snakeTargets g)) of
                Inl e \<Rightarrow> Inl e
              | Inr (mv, ai', ts) \<Rightarrow>
                  (let s1 = (case mv of
                               None \<Rightarrow> s
                             | Some m \<Rightarrow> s\<lparr>nextDx := move_x m, nextDy := move_y m\<rparr>);
                       s2 = s1\<lparr>dx := nextDx s1, dy := nextDy s1\<rparr>
                   in Inr (g\<lparr>snakes := (snakes g)[i := s2], aiController := Some ai',
                             snakeTargets := (case ts of None \<Rightarrow> snakeTargets g | Some t \<Rightarrow> t)\<rparr>))))"

definition collision :: "game \<Rightarrow> snake \<Rightarrow> pos \<Rightarrow> bool" where
  "collision g s head =
     ((fst head < 0 \<or> TILE_COLS g \<le> fst head \<or> snd head < 0 \<or> TILE_ROWS g \<le> snd head) \<or>
      head \<in> set (body s) \<or>
      list_ex (\<lambda>other. sid other \<noteq> sid s \<and> head \<in> set (body other)) (snakes g))"

definition respawn :: "(nat \<Rightarrow> rat) \<Rightarrow> nat \<Rightarrow> game \<Rightarrow> error + game" where
  "respawn rnd i g =
     (let s = snakes g ! i;
          offset = rnd (mathRandomCalls g) * 1000;
          g1 = g\<lparr>mathRandomCalls := Suc (mathRandomCalls g)\<rparr>
      in case aiController g of
           None \<Rightarrow> Inl TypeError
         | Some ai \<Rightarrow>
             (case getStartState ai offset of
                Inl e \<Rightarrow> Inl e
              | Inr (st, ai') \<Rightarrow>
                  Inr (g1\<lparr>snakes := (snakes g)[i := snakeOf st (colorIndex s) (sid s)],
                          aiController := Some ai'\<rparr>)))"

definition findIndex :: "('a \<Rightarrow> bool) \<Rightarrow> 'a list \<Rightarrow> nat option" where
  "findIndex P xs = (if list_ex P xs then Some (length (takeWhile (\<lambda>x. \<not> P x) xs)) else None)"

definition advance :: "(nat \<Rightarrow> rat) \<Rightarrow> nat \<Rightarrow> game \<Rightarrow> pos \<Rightarrow> game option" where
  "advance rnd i g head =
     (let s = snakes g ! i;
          grown = head # body s
      in case findIndex (\<lambda>f. fst head = fst f \<and> snd head = snd f) (foods g) of
           Some foodIndex \<Rightarrow>
             maintainFoodCount rnd
               (g\<lparr>snakes := (snakes g)[i := s\<lparr>body := grown\<rparr>],
                  foods := take foodIndex (foods g) @ drop (Suc foodIndex) (foods g),
                  snakeTargets := AList.delete (sid s) (snakeTargets g)\<rparr>)
         | None \<Rightarrow> Some (g\<lparr>snakes := (snakes g)[i := s\<lparr>body := butlast grown\<rparr>]\<rparr>))"

definition stepSnake :: "(nat \<Rightarrow> rat) \<Rightarrow> nat \<Rightarrow> game \<Rightarrow> (error + game) option" where
  "stepSnake rnd i g =
     (case decide i g of
        Inl e \<Rightarrow> Some (Inl e)
      | Inr g1 \<Rightarrow>
          (let s = snakes g1 ! i
           in case body s of
                [] \<Rightarrow> Some (Inl TypeError)
              | b0 # _ \<Rightarrow>
                  (let head = (fst b0 + dx s, snd b0 + dy s)
                   in if collision g1 s head then Some (respawn rnd i g1)
                      else map_option Inr (advance rnd i g1 head))))"

text \<open>
  \<^verbatim>\<open>gameLoop\<close>: the snakes are processed in index order. No iteration
  changes the length of \<^verbatim>\<open>snakes\<close>, so the indices are those of the array at
  the start of the tick.
\<close>

fun gameLoopOver :: "(nat \<Rightarrow> rat) \<Rightarrow> nat list \<Rightarrow> game \<Rightarrow> (error + game) option" where
  "gameLoopOver rnd [] g = Some (Inr g)"
| "gameLoopOver rnd (i # is) g =
     (case stepSnake rnd i g of
        None \<Rightarrow> None
      | Some (Inl e) \<Rightarrow> Some (Inl e)
      | Some (Inr g') \<Rightarrow> gameLoopOver rnd is g')"

definition gameLoop :: "(nat \<Rightarrow> rat) \<Rightarrow> game \<Rightarrow> (error + game) option" where
  "gameLoop rnd g = gameLoopOver rnd [0..<length (snakes g)] g"

section \<open>Auxiliary definitions\<close>

text \<open>
  What a run of the food loop leaves unchanged: the snakes, the claims, the
  controller and the grid size.
\<close>

definition frameEq :: "game \<Rightarrow> game \<Rightarrow> bool" where
  "frameEq g g' \<longleftrightarrow> snakes g' = snakes g \<and> snakeTargets g' = snakeTargets g \<and>
     aiController g' = aiController g \<and> TILE_COLS g' = TILE_COLS g \<and> TILE_ROWS g' = TILE_ROWS g"

text \<open>
  Concrete states for the witnesses: the controller that \<^verbatim>\<open>init\<close> builds on
  a 2x2 grid with seed 42, a \<^verbatim>\<open>Math.random\<close> stream that walks over the
  centres of a 4x4 grid, and a game in which the snake's next cell holds food.
\<close>

definition ai22 :: SnakeAI where
  "ai22 = \<lparr>cols = 2, rows = 2, hamiltonianCycle = [(0, 0), (0, 1), (1, 1), (1, 0)],
            cycleMap = [((0, 0), 0), ((0, 1), 1), ((1, 1), 2), ((1, 0), 3)],
            isInitialized = True, seed = 3663131668\<rparr>"

definition rndSeq :: "nat \<Rightarrow> rat" where
  "rndSeq n = [1/8, 1/8, 3/8, 1/8, 5/8, 1/8, 7/8, 1/8, 1/8, 3/8, 3/8, 3/8, 5/8, 3/8, 7/8, 3/8,
               1/8, 5/8, 3/8, 5/8, 5/8, 5/8, 7/8, 5/8, 1/8, 7/8, 3/8, 7/8, 5/8, 7/8, 7/8, 7/8] ! (n mod 32)"

definition gEat :: game where
  "gEat = \<lparr>TILE_COLS = 4, TILE_ROWS = 4,
            snakes = [\<lparr>body = [(0, 1), (0, 0), (1, 0)], dx = 0, dy = 1, nextDx = 0, nextDy = 1,
                       colorIndex = 0, sid = 0\<rparr>],
            foods = [(0, 2), (3, 0), (3, 1), (3, 2), (3, 3)],
            aiController = None, snakeTargets = [(0, 0)], mathRandomCalls = 0\<rparr>"

text \<open>
  The specification's vocabulary, read off the cycle sequence itself: the
  index of a cell in the sequence, the forward distance between two cells
  along it, and a controller whose index map agrees with its duplicate-free
  cycle. \<open>neighbours4\<close> lists the in-grid neighbours of a cell in the order
  up, down, left, right.
\<close>

definition cycleIndexOf :: "SnakeAI \<Rightarrow> pos \<Rightarrow> nat option" where
  "cycleIndexOf ai p =
     (if p \<in> set (hamiltonianCycle ai)
      then Some (length (takeWhile (\<lambda>q. q \<noteq> p) (hamiltonianCycle ai))) else None)"


definition wellFormed :: "SnakeAI \<Rightarrow> bool" where
  "wellFormed ai \<longleftrightarrow>
     isInitialized ai \<and> distinct (hamiltonianCycle ai) \<and>
     cycleMap ai = buildCycleMap (hamiltonianCycle ai)"

definition neighbours4 :: "SnakeAI \<Rightarrow> pos \<Rightarrow> pos list" where
  "neighbours4 ai p =
     filter (\<lambda>n. 0 \<le> fst n \<and> fst n < cols ai \<and> 0 \<le> snd n \<and> snd n < rows ai)
       [(fst p, snd p - 1), (fst p, snd p + 1), (fst p - 1, snd p), (fst p + 1, snd p)]"

text \<open>
  The controller that \<^verbatim>\<open>init\<close> builds on a 6x6 grid with seed 42.
\<close>

definition ai66 :: SnakeAI where
  "ai66 = \<lparr>cols = 6, rows = 6,
            hamiltonianCycle = [(0, 0), (0, 1), (0, 2), (0, 3), (0, 4), (0, 5), (1, 5), (2, 5), (3, 5), (3, 4), (3, 3), (4, 3), (4, 4), (4, 5), (5, 5), (5, 4), (5, 3), (5, 2), (5, 1), (5, 0), (4, 0), (3, 0), (2, 0), (2, 1), (3, 1), (4, 1), (4, 2), (3, 2), (2, 2), (2, 3), (2, 4), (1, 4), (1, 3), (1, 2), (1, 1), (1, 0)],
            cycleMap = [((0, 0), 0), ((0, 1), 1), ((0, 2), 2), ((0, 3), 3), ((0, 4), 4), ((0, 5), 5), ((1, 5), 6), ((2, 5), 7), ((3, 5), 8), ((3, 4), 9), ((3, 3), 10), ((4, 3), 11), ((4, 4), 12), ((4, 5), 13), ((5, 5), 14), ((5, 4), 15), ((5, 3), 16), ((5, 2), 17), ((5, 1), 18), ((5, 0), 19), ((4, 0), 20), ((3, 0), 21), ((2, 0), 22), ((2, 1), 23), ((3, 1), 24), ((4, 1), 25), ((4, 2), 26), ((3, 2), 27), ((2, 2), 28), ((2, 3), 29), ((2, 4), 30), ((1, 4), 31), ((1, 3), 32), ((1, 2), 33), ((1, 1), 34), ((1, 0), 35)],
            isInitialized = True, seed = 47620711180\<rparr>"

text \<open>
  The cell \<open>k\<close> steps ahead of \<open>p\<close> on the cycle; the clear path of the two
  blockage checks; the shortcut conditions on a neighbour \<open>n\<close>; a move from
  the head to a cell.
\<close>

definition cycleAhead :: "SnakeAI \<Rightarrow> pos \<Rightarrow> nat \<Rightarrow> pos option" where
  "cycleAhead ai p k =
     (case cycleIndexOf ai p of
        None \<Rightarrow> None
      | Some i \<Rightarrow> Some (hamiltonianCycle ai ! ((i + k) mod length (hamiltonianCycle ai))))"




text \<open>
  Free cells for the flood fill: a step goes from a cell to an in-grid
  neighbour that is not blocked; \<open>reach\<close> is the set of cells reachable from
  the start by such steps (the start included). \<open>blockedAhead\<close> says that
  one of the five cycle cells ahead of the head is an obstacle.
\<close>

definition freeStep :: "SnakeAI \<Rightarrow> pos list \<Rightarrow> (pos \<times> pos) set" where
  "freeStep ai blocked = {(a, b). b \<in> set (neighbours4 ai a) \<and> b \<notin> set blocked}"

definition reach :: "SnakeAI \<Rightarrow> pos list \<Rightarrow> pos \<Rightarrow> pos set" where
  "reach ai blocked start = {c. (start, c) \<in> (freeStep ai blocked)\<^sup>*}"

definition blockedAhead :: "SnakeAI \<Rightarrow> pos \<Rightarrow> pos list \<Rightarrow> bool" where
  "blockedAhead ai head obs \<longleftrightarrow>
     list_ex (\<lambda>k. case cycleAhead ai head k of None \<Rightarrow> False | Some p \<Rightarrow> p \<in> set obs) [1..<6]"

definition openArea :: "SnakeAI \<Rightarrow> pos list \<Rightarrow> pos \<Rightarrow> nat" where
  "openArea ai blocked n = min 300 (card (reach ai blocked n))"

definition survivalScore :: "SnakeAI \<Rightarrow> pos list \<Rightarrow> pos list \<Rightarrow> pos \<Rightarrow> int" where
  "survivalScore ai snake blocked n =
     int (openArea ai (blocked @ snake) n) - 2 * getDangerScore ai n blocked"

text \<open>
  The loop invariant of the flood fill, with the set \<open>P\<close> of the cells
  dequeued so far: the queue holds the visited cells not yet dequeued, every
  visited cell is reachable, and \<open>P\<close> is closed under free steps into the
  visited cells.
\<close>

definition floodInv ::
  "SnakeAI \<Rightarrow> pos list \<Rightarrow> pos \<Rightarrow> pos set \<Rightarrow> pos list \<Rightarrow> pos list \<Rightarrow> nat \<Rightarrow> bool" where
  "floodInv ai blocked start P queue visited count \<longleftrightarrow>
     distinct queue \<and> set queue \<inter> P = {} \<and> set visited = P \<union> set queue \<and>
     finite P \<and> card P = count \<and> count \<le> 300 \<and>
     start \<in> set visited \<and> set visited \<subseteq> reach ai blocked start \<and>
     (\<forall>p\<in>P. \<forall>b. (p, b) \<in> freeStep ai blocked \<longrightarrow> b \<in> set visited)"

text \<open>
  The cells of the grid that no snake covers; a state in which the food loop
  cannot succeed: the food items are distinct free cells and fewer than five
  cells are free. \<open>rndOk\<close> says that the \<^verbatim>\<open>Math.random\<close> stream stays in
  \<open>[0, 1)\<close>.
\<close>

definition freeCells :: "game \<Rightarrow> pos set" where
  "freeCells g =
     {p \<in> grid (TILE_COLS g) (TILE_ROWS g). \<not> list_ex (\<lambda>s. p \<in> set (body s)) (snakes g)}"

definition starved :: "game \<Rightarrow> bool" where
  "starved g \<longleftrightarrow>
     0 < TILE_COLS g \<and> 0 < TILE_ROWS g \<and> distinct (foods g) \<and>
     set (foods g) \<subseteq> freeCells g \<and> card (freeCells g) < 5"

definition rndOk :: "(nat \<Rightarrow> rat) \<Rightarrow> bool" where
  "rndOk rnd \<longleftrightarrow> (\<forall>n. 0 \<le> rnd n \<and> rnd n < 1)"

text \<open>
  The state that \<^verbatim>\<open>resizeCanvas\<close> builds in a window of 160 by 160 pixels at
  clock value 1700000000007 with the \<^verbatim>\<open>Math.random\<close> stream \<open>rndSeq\<close>: a 4x4
  grid, two snakes and five food items.
\<close>

definition ai44 :: SnakeAI where
  "ai44 = \<lparr>cols = 4, rows = 4,
            hamiltonianCycle = [(0, 0), (0, 1), (0, 2), (0, 3), (1, 3), (1, 2), (1, 1), (2, 1),
                                (2, 2), (2, 3), (3, 3), (3, 2), (3, 1), (3, 0), (2, 0), (1, 0)],
            cycleMap = [((0, 0), 0), ((0, 1), 1), ((0, 2), 2), ((0, 3), 3), ((1, 3), 4), ((1, 2), 5),
                        ((1, 1), 6), ((2, 1), 7), ((2, 2), 8), ((2, 3), 9), ((3, 3), 10), ((3, 2), 11),
                        ((3, 1), 12), ((3, 0), 13), ((2, 0), 14), ((1, 0), 15)],
            isInitialized = True, seed = 1721978789763\<rparr>"

definition gStart :: game where
  "gStart = \<lparr>TILE_COLS = 4, TILE_ROWS = 4,
              snakes = [\<lparr>body = [(1, 1), (1, 2), (1, 3)], dx = 0, dy = - 1, nextDx = 0, nextDy = - 1,
                         colorIndex = 0, sid = 0\<rparr>,
                        \<lparr>body = [(0, 3), (0, 2), (0, 1)], dx = 0, dy = 1, nextDx = 0, nextDy = 1,
                         colorIndex = 1, sid = 1\<rparr>],
              foods = [(0, 0), (1, 0), (2, 0), (3, 0), (2, 1)],
              aiController = Some ai44, snakeTargets = [], mathRandomCalls = 14\<rparr>"

text \<open>
  The same game after the iteration of snake 0, which eats the food at
  \<open>(2, 1)\<close>, and after the whole tick, in which snake 1 collides and is
  respawned. \<open>rndAlt\<close> is a second \<^verbatim>\<open>Math.random\<close> stream, which differs from
  \<open>rndSeq\<close> in the value that the respawn consumes; \<open>gTickAlt\<close> is the state
  after the tick under it.
\<close>

definition gMid :: game where
  "gMid = gStart\<lparr>snakes := [\<lparr>body = [(2, 1), (1, 1), (1, 2), (1, 3)], dx = 1, dy = 0, nextDx = 1,
                              nextDy = 0, colorIndex = 0, sid = 0\<rparr>,
                             \<lparr>body = [(0, 3), (0, 2), (0, 1)], dx = 0, dy = 1, nextDx = 0, nextDy = 1,
                              colorIndex = 1, sid = 1\<rparr>],
                  foods := [(0, 0), (1, 0), (2, 0), (3, 0), (3, 1)], mathRandomCalls := 16\<rparr>"

definition gTick :: game where
  "gTick = gMid\<lparr>snakes := [\<lparr>body = [(2, 1), (1, 1), (1, 2), (1, 3)], dx = 1, dy = 0, nextDx = 1,
                             nextDy = 0, colorIndex = 0, sid = 0\<rparr>,
                            \<lparr>body = [(2, 3), (2, 2), (2, 1)], dx = 0, dy = 1, nextDx = 0, nextDy = 1,
                             colorIndex = 1, sid = 1\<rparr>],
                 aiController := Some (ai44\<lparr>seed := 1723810355576\<rparr>), mathRandomCalls := 17\<rparr>"

definition rndAlt :: "nat \<Rightarrow> rat" where
  "rndAlt n = (if n = 16 then 1 / 2048 else rndSeq n)"

definition gTickAlt :: game where
  "gTickAlt = gTick\<lparr>snakes := [\<lparr>body = [(2, 1), (1, 1), (1, 2), (1, 3)], dx = 1, dy = 0, nextDx = 1,
                                 nextDy = 0, colorIndex = 0, sid = 0\<rparr>,
                                \<lparr>body = [(0, 2), (0, 1), (0, 0)], dx = 0, dy = 1, nextDx = 0, nextDy = 1,
                                 colorIndex = 1, sid = 1\<rparr>]\<rparr>"

text \<open>
  No two snakes at different indices share a body cell. \<open>collides\<close> says that
  the snake at index \<open>i\<close> fails the collision test of its iteration, so that
  the iteration respawns it.
\<close>

definition noOverlap :: "snake list \<Rightarrow> bool" where
  "noOverlap ss \<longleftrightarrow>
     (\<forall>i<length ss. \<forall>j<length ss. i \<noteq> j \<longrightarrow> set (body (ss ! i)) \<inter> set (body (ss ! j)) = {})"

definition collides :: "nat \<Rightarrow> game \<Rightarrow> bool" where
  "collides i g =
     (case decide i g of
        Inl e \<Rightarrow> False
      | Inr g1 \<Rightarrow>
          (let s = snakes g1 ! i
           in case body s of
                [] \<Rightarrow> False
              | b0 # _ \<Rightarrow> collision g1 s (fst b0 + dx s, snd b0 + dy s)))"

text \<open>
  Two \<^verbatim>\<open>Math.random\<close> streams that agree from the \<open>k\<close>-th value on, and a
  stream that differs from \<open>rndSeq\<close> only in the values consumed before
  \<open>gStart\<close>.
\<close>

definition agreeFrom :: "nat \<Rightarrow> (nat \<Rightarrow> rat) \<Rightarrow> (nat \<Rightarrow> rat) \<Rightarrow> bool" where
  "agreeFrom k rnd rnd' \<longleftrightarrow> (\<forall>n\<ge>k. rnd n = rnd' n)"

definition rndPast :: "nat \<Rightarrow> rat" where
  "rndPast n = (if n < 14 then 0 else rndSeq n)"

text \<open>
  The outputs of the first \<open>n\<close> calls of \<^verbatim>\<open>random()\<close> on a controller.
\<close>

fun randoms :: "nat \<Rightarrow> SnakeAI \<Rightarrow> int list" where
  "randoms 0 ai = []"
| "randoms (Suc n) ai = (let (k, ai') = random ai in k # randoms n ai')"

text \<open>
  The cycle of the 8x8 grid with seed 42.
\<close>

definition cycle88 :: "pos list" where
  "cycle88 =
     [(0, 0), (0, 1), (0, 2), (0, 3), (0, 4), (0, 5), (0, 6), (0, 7),
      (1, 7), (2, 7), (3, 7), (4, 7), (5, 7), (5, 6), (5, 5), (5, 4),
      (5, 3), (6, 3), (6, 4), (6, 5), (6, 6), (6, 7), (7, 7), (7, 6),
      (7, 5), (7, 4), (7, 3), (7, 2), (7, 1), (7, 0), (6, 0), (6, 1),
      (6, 2), (5, 2), (5, 1), (5, 0), (4, 0), (3, 0), (2, 0), (2, 1),
      (3, 1), (4, 1), (4, 2), (3, 2), (2, 2), (2, 3), (3, 3), (4, 3),
      (4, 4), (4, 5), (4, 6), (3, 6), (3, 5), (3, 4), (2, 4), (2, 5),
      (2, 6), (1, 6), (1, 5), (1, 4), (1, 3), (1, 2), (1, 1), (1, 0)]"

text \<open>
  The state after the snake at index \<open>i\<close> has taken over the move that
  \<^verbatim>\<open>getNextMove\<close> returned: \<^verbatim>\<open>nextDx\<close> and \<^verbatim>\<open>nextDy\<close> are set from a move other
  than \<^verbatim>\<open>null\<close> and copied to \<^verbatim>\<open>dx\<close> and \<^verbatim>\<open>dy\<close>; the controller and the
  claims are the ones the call left.
\<close>

definition moved :: "nat \<Rightarrow> game \<Rightarrow> move option \<Rightarrow> SnakeAI \<Rightarrow> targets option \<Rightarrow> game" where
  "moved i g mv ai' ts =
     (let s = snakes g ! i;
          s1 = (case mv of None \<Rightarrow> s | Some m \<Rightarrow> s\<lparr>nextDx := move_x m, nextDy := move_y m\<rparr>);
          s2 = s1\<lparr>dx := nextDx s1, dy := nextDy s1\<rparr>
      in g\<lparr>snakes := (snakes g)[i := s2], aiController := Some ai',
           snakeTargets := (case ts of None \<Rightarrow> snakeTargets g | Some t \<Rightarrow> t)\<rparr>)"

text \<open>
  The state that \<^verbatim>\<open>resizeCanvas\<close> builds in a window of 160 by 160 pixels at
  clock value 1700000000012 with the \<^verbatim>\<open>Math.random\<close> stream \<open>rndSeq\<close>, and
  the state after the iteration of snake 0 in its first tick.
\<close>

definition g12 :: game where
  "g12 = \<lparr>TILE_COLS = 4, TILE_ROWS = 4,
           snakes = [\<lparr>body = [(0, 3), (0, 2), (0, 1)], dx = 0, dy = 1, nextDx = 0, nextDy = 1,
                      colorIndex = 0, sid = 0\<rparr>,
                     \<lparr>body = [(3, 1), (3, 2), (3, 3)], dx = 0, dy = - 1, nextDx = 0, nextDy = - 1,
                      colorIndex = 1, sid = 1\<rparr>],
           foods = [(0, 0), (1, 0), (2, 0), (3, 0), (1, 1)],
           aiController = Some (ai44\<lparr>seed := 1721978789768\<rparr>), snakeTargets = [],
           mathRandomCalls = 12\<rparr>"

definition g12m :: game where
  "g12m = g12\<lparr>snakes := [\<lparr>body = [(1, 3), (0, 3), (0, 2)], dx = 1, dy = 0, nextDx = 1, nextDy = 0,
                             colorIndex = 0, sid = 0\<rparr>,
                            \<lparr>body = [(3, 1), (3, 2), (3, 3)], dx = 0, dy = - 1, nextDx = 0,
                             nextDy = - 1, colorIndex = 1, sid = 1\<rparr>],
                 snakeTargets := [(0, 4)]\<rparr>"





text \<open>
  A cycle is kept as a duplicate-free list, read cyclically. \<open>consec\<close> are
  the pairs of neighbouring elements of a list, \<open>cedges\<close> adds the pair that
  closes the cycle, and \<open>sedges\<close> forgets the direction.
\<close>

fun consec :: "'a list \<Rightarrow> ('a \<times> 'a) set" where
  "consec [] = {}"
| "consec [x] = {}"
| "consec (x # y # zs) = insert (x, y) (consec (y # zs))"

definition cedges :: "'a list \<Rightarrow> ('a \<times> 'a) set" where
  "cedges C = (if C = [] then {} else insert (last C, hd C) (consec C))"

definition sedges :: "'a list \<Rightarrow> ('a \<times> 'a) set" where
  "sedges C = cedges C \<union> (cedges C)\<inverse>"

text \<open>
  \<open>nbr m p S\<close>: the table \<open>m\<close> lists exactly the set \<open>S\<close> at \<open>p\<close>, without
  repetition. \<open>cyc m C\<close>: the table restricted to \<open>C\<close> is the cycle \<open>C\<close>.
  \<open>swapsTo m m' a1 a2 b1 b2\<close>: what \<^verbatim>\<open>swapLinks\<close> does to the table.
\<close>

definition nbr :: "('a \<rightharpoonup> 'a list) \<Rightarrow> 'a \<Rightarrow> 'a set \<Rightarrow> bool" where
  "nbr m p S \<longleftrightarrow> (\<exists>ns. m p = Some ns \<and> distinct ns \<and> set ns = S)"









definition shift :: "pos \<Rightarrow> pos \<Rightarrow> pos" where
  "shift p d = (fst p + fst d, snd p + snd d)"


section \<open>Claims\<close>

subsection \<open>C9: getNextMove on inputs outside the built cycle\<close>

lemma getNextMove_head_off_cycle:
  assumes "isInitialized ai" and "getCycleIndex ai head = None"
  shows "getNextMove ai (head # rest) fs poison obs snakeId ts = Inl TypeError"
  using assms by (simp add: getNextMove_def)

lemma init_odd: "cols ai mod 2 \<noteq> 0 \<or> rows ai mod 2 \<noteq> 0 \<Longrightarrow> init ai = Inr ai"
  by (simp add: init_def)

text \<open>
  C9. The claim says that \<^verbatim>\<open>getNextMove\<close> returns normally for every input,
  odd grid dimensions and a head outside the cycle map included. On a 3x3
  controller \<^verbatim>\<open>init\<close> logs its error and returns with an empty cycle, the
  head index is \<^verbatim>\<open>undefined\<close>, and \<^verbatim>\<open>nextPos.x\<close> raises a
  \<^verbatim>\<open>TypeError\<close>; on an initialised 2x2 controller a head at \<open>(5, 5)\<close>, which
  is not on the cycle, raises the same way.
\<close>

theorem getNextMove_raises_TypeError:
  "getNextMove (SnakeAI_new 3 3 42 0) [(0, 0)] [] None [] 0 (Some []) = Inl TypeError \<and>
   (case init (SnakeAI_new 2 2 42 0) of
      Inl e \<Rightarrow> False
    | Inr ai \<Rightarrow> isInitialized ai \<and>
        getNextMove ai [(5, 5)] [] None [] 0 (Some []) = Inl TypeError)"
  by code_simp

theorem getNextMove_raises_TypeError_witness:
  "getNextMove (SnakeAI_new 3 3 42 0) [(0, 0)] [] None [] 0 (Some []) = Inl TypeError"
  using getNextMove_raises_TypeError by (rule conjunct1)

subsection \<open>C7: target claims in the nearest-food search\<close>

lemma fold_inv:
  assumes "P acc" and "\<And>x a. x \<in> set xs \<Longrightarrow> P a \<Longrightarrow> P (f x a)"
  shows "P (fold f xs acc)"
  using assms by (induction xs arbitrary: acc) auto

lemma in_set_zip_upt:
  "(f, i) \<in> set (zip fs [0..<length fs]) \<longleftrightarrow> i < length fs \<and> fs ! i = f"
  by (auto simp: in_set_zip)

lemma in_zip_upt_snd:
  "x \<in> set (zip fs [0..<length fs]) \<Longrightarrow> snd x < length fs \<and> fs ! snd x = fst x"
  by (cases x) (auto simp: in_set_zip)

lemma nearestScan_sound:
  assumes "nearestScan ai head fs me st = Some (d, f, i)"
  shows "i < length fs \<and> fs ! i = f \<and> \<not> taken st me i \<and> foodDist ai head f = Some d"
proof -
  let ?P = "\<lambda>acc. \<forall>d f i. acc = Some (d, f, i) \<longrightarrow>
              (f, i) \<in> set (zip fs [0..<length fs]) \<and> \<not> taken st me i \<and> foodDist ai head f = Some d"
  have "?P (fold (nearestStep ai head me st) (zip fs [0..<length fs]) None)"
  proof (rule fold_inv)
    show "?P None" by simp
  next
    fix x a assume "x \<in> set (zip fs [0..<length fs])" "?P a"
    then show "?P (nearestStep ai head me st x a)"
      by (auto simp: nearestStep_def in_set_zip_upt dest!: in_zip_upt_snd
               split: option.splits if_splits)
  qed
  with assms have "(f, i) \<in> set (zip fs [0..<length fs]) \<and> \<not> taken st me i \<and>
      foodDist ai head f = Some d"
    unfolding nearestScan_def by blast
  then show ?thesis by (simp add: in_set_zip_upt)
qed

lemma nearestScan_all_taken:
  assumes "\<forall>j<length fs. taken st me j"
  shows "nearestScan ai head fs me st = None"
proof -
  have "fold (nearestStep ai head me st) (zip fs [0..<length fs]) None = None"
  proof (rule fold_inv [where P = "\<lambda>acc::(int \<times> pos \<times> nat) option. acc = None"])
    show "(None::(int \<times> pos \<times> nat) option) = None" by simp
  next
    fix x and a :: "(int \<times> pos \<times> nat) option"
    assume "x \<in> set (zip fs [0..<length fs])" "a = None"
    then show "nearestStep ai head me st x a = None"
      using assms by (auto simp: nearestStep_def dest!: in_zip_upt_snd)
  qed
  then show ?thesis by (simp add: nearestScan_def)
qed

lemma taken_stale:
  "i < n \<Longrightarrow> taken (Some (filter (\<lambda>(oid, tidx). tidx < n) ts)) me i = taken (Some ts) me i"
  by (auto simp: taken_def list_ex_iff)

lemma nearestScan_stale:
  "nearestScan ai head fs me (Some (filter (\<lambda>(oid, tidx). tidx < length fs) ts))
     = nearestScan ai head fs me (Some ts)"
  unfolding nearestScan_def
proof (rule fold_cong [OF refl refl])
  fix x assume "x \<in> set (zip fs [0..<length fs])"
  then have "snd x < length fs" by (auto dest!: in_zip_upt_snd)
  then show "nearestStep ai head me (Some (filter (\<lambda>(oid, tidx). tidx < length fs) ts)) x
           = nearestStep ai head me (Some ts) x"
    by (intro ext) (simp add: nearestStep_def taken_stale)
qed


lemma nearestStep_Some:
  assumes "nearestStep ai head me st x acc = Some a'"
  shows "(\<forall>a. acc = Some a \<longrightarrow> fst a' \<le> fst a) \<and>
         (\<not> taken st me (snd x) \<longrightarrow> (\<forall>d'. foodDist ai head (fst x) = Some d' \<longrightarrow> fst a' \<le> d'))"
  using assms by (cases acc) (auto simp: nearestStep_def split: option.splits if_splits)

lemma nearestStep_None:
  assumes "nearestStep ai head me st x acc = None"
  shows "acc = None \<and> (taken st me (snd x) \<or> foodDist ai head (fst x) = None)"
  using assms by (cases acc) (auto simp: nearestStep_def split: option.splits if_splits)

lemma fold_nearest_min:
  assumes "fold (nearestStep ai head me st) xs acc = Some r"
  shows "(\<forall>x\<in>set xs. \<not> taken st me (snd x) \<longrightarrow>
            (\<forall>d'. foodDist ai head (fst x) = Some d' \<longrightarrow> fst r \<le> d')) \<and>
         (\<forall>a. acc = Some a \<longrightarrow> fst r \<le> fst a)"
  using assms
proof (induction xs arbitrary: acc)
  case Nil
  then show ?case by simp
next
  case (Cons x xs)
  from Cons.prems have *: "fold (nearestStep ai head me st) xs (nearestStep ai head me st x acc) = Some r"
    by simp
  note IH = Cons.IH [OF *]
  show ?case
  proof (cases "nearestStep ai head me st x acc")
    case None
    from nearestStep_None [OF None] IH show ?thesis by auto
  next
    case (Some a')
    from IH Some have le: "fst r \<le> fst a'" by simp
    from nearestStep_Some [OF Some] le IH show ?thesis by fastforce
  qed
qed

lemma nearestScan_min:
  assumes "nearestScan ai head fs me st = Some (d, f, i)"
    and "j < length fs" and "\<not> taken st me j" and "foodDist ai head (fs ! j) = Some d'"
  shows "d \<le> d'"
proof -
  have "(fs ! j, j) \<in> set (zip fs [0..<length fs])"
    using assms(2) by (simp add: in_set_zip_upt)
  with fold_nearest_min [OF assms(1) [unfolded nearestScan_def]] assms(3,4)
  show ?thesis by fastforce
qed

lemma spawnLoop_frame:
  "snakes (spawnLoop rnd g a) = snakes g \<and> snakeTargets (spawnLoop rnd g a) = snakeTargets g \<and>
   aiController (spawnLoop rnd g a) = aiController g \<and>
   TILE_COLS (spawnLoop rnd g a) = TILE_COLS g \<and> TILE_ROWS (spawnLoop rnd g a) = TILE_ROWS g"
proof (induction rnd g a rule: spawnLoop.induct)
  case (1 rnd g attempts)
  show ?case
  proof (cases "attempts < 50")
    case False
    then show ?thesis by (subst (1 2 3 4 5) spawnLoop.simps) simp
  next
    case True
    with 1 [OF True refl refl] show ?thesis
      by (subst (1 2 3 4 5) spawnLoop.simps) (simp add: Let_def)
  qed
qed

lemma maintainFoodCount_frame:
  assumes "maintainFoodCount rnd g = Some g'"
  shows "frameEq g g'"
proof (rule maintainFoodCount.raw_induct [where P = "\<lambda>rnd g g'. frameEq g g'", OF _ assms])
  fix mfc :: "(nat \<Rightarrow> rat) \<Rightarrow> game \<Rightarrow> game option" and rnd g y
  assume IH: "\<And>a b y. mfc a b = Some y \<Longrightarrow> frameEq b y"
    and eq: "(if length (foods g) < 5 then mfc rnd (spawnSingleFood rnd g) else Some g) = Some y"
  show "frameEq g y"
  proof (cases "length (foods g) < 5")
    case True
    with eq have "mfc rnd (spawnSingleFood rnd g) = Some y" by simp
    from IH [OF this] show ?thesis
      by (simp add: frameEq_def spawnSingleFood_def spawnLoop_frame)
  next
    case False
    with eq show ?thesis by (simp add: frameEq_def)
  qed
qed


lemma init_ai22: "init (SnakeAI_new 2 2 42 0) = Inr ai22"
  by code_simp

lemma taken_iff: "taken (Some ts) me i \<longleftrightarrow> (\<exists>oid. oid \<noteq> me \<and> (oid, i) \<in> set ts)"
  by (auto simp: taken_def list_ex_iff)

lemma update_mem: "(k, v) \<in> set (AList.update k v ts)"
  by (rule map_of_SomeD) (simp add: update_conv')

lemma findIndex_mem:
  "hd' \<in> set fs \<Longrightarrow> \<exists>n. findIndex (\<lambda>f. fst hd' = fst f \<and> snd hd' = snd f) fs = Some n"
  by (auto simp: findIndex_def list_ex_iff)

lemma advance_eat_clears:
  assumes "advance rnd k g hd' = Some g'" and "hd' \<in> set (foods g)"
  shows "map_of (snakeTargets g') (sid (snakes g ! k)) = None"
proof -
  from findIndex_mem [OF assms(2)] obtain n where
    n: "findIndex (\<lambda>f. fst hd' = fst f \<and> snd hd' = snd f) (foods g) = Some n" by blast
  with assms(1) have "frameEq
      (g\<lparr>snakes := (snakes g)[k := (snakes g ! k)\<lparr>body := hd' # body (snakes g ! k)\<rparr>],
         foods := take n (foods g) @ drop (Suc n) (foods g),
         snakeTargets := AList.delete (sid (snakes g ! k)) (snakeTargets g)\<rparr>) g'"
    by (intro maintainFoodCount_frame [where rnd = rnd]) (simp add: advance_def Let_def)
  then show ?thesis by (simp add: frameEq_def delete_conv')
qed

text \<open>
  C7, as amended. For a call of \<^verbatim>\<open>findNearestFood\<close> by the agent \<open>me\<close> with
  the claims table \<open>ts\<close>: the food it selects, at index \<open>i\<close>, is not claimed
  by another agent and is nearest (in forward cycle distance) among the foods
  no other agent claims; the index is recorded as the caller's claim when the
  caller's id is not \<open>-1\<close>, the default id of a caller that is no agent; when
  every food is claimed by others nothing is selected and the table is left as
  it is, so of two agents after the same sole food the later one does not
  select it; claims whose index is outside the food list do not change the
  selection; and the agent's entry is gone from the table once it has eaten.
\<close>

theorem findNearestFood_claims:
  "(\<forall>d f i. nearestScan ai head fs me (Some ts) = Some (d, f, i) \<longrightarrow>
      i < length fs \<and> fs ! i = f \<and> \<not> (\<exists>oid. oid \<noteq> me \<and> (oid, i) \<in> set ts) \<and>
      (\<forall>j<length fs. \<not> (\<exists>oid. oid \<noteq> me \<and> (oid, j) \<in> set ts) \<longrightarrow>
         (\<forall>d'. foodDist ai head (fs ! j) = Some d' \<longrightarrow> d \<le> d')) \<and>
      fst (findNearestFood ai head fs me (Some ts)) = Some f \<and>
      (me \<noteq> -1 \<longrightarrow>
         snd (findNearestFood ai head fs me (Some ts)) = Some (AList.update me i ts) \<and>
         map_of (AList.update me i ts) me = Some i)) \<and>
   ((\<forall>j<length fs. \<exists>oid. oid \<noteq> me \<and> (oid, j) \<in> set ts) \<longrightarrow>
      findNearestFood ai head fs me (Some ts) = (None, Some ts)) \<and>
   (\<forall>f headB other tsA. me \<noteq> -1 \<and> other \<noteq> me \<and>
      findNearestFood ai head [f] me (Some ts) = (Some f, Some tsA) \<longrightarrow>
      findNearestFood ai headB [f] other (Some tsA) = (None, Some tsA)) \<and>
   fst (findNearestFood ai head fs me (Some ts)) =
     fst (findNearestFood ai head fs me (Some (filter (\<lambda>(oid, tidx). tidx < length fs) ts))) \<and>
   (\<forall>g'. advance rnd k g hd' = Some g' \<and> hd' \<in> set (foods g) \<longrightarrow>
      map_of (snakeTargets g') (sid (snakes g ! k)) = None)"
proof (intro conjI allI impI)
  fix d f i assume s: "nearestScan ai head fs me (Some ts) = Some (d, f, i)"
  note snd' = nearestScan_sound [OF s]
  from snd' show "i < length fs" "fs ! i = f" by simp_all
  from snd' show "\<not> (\<exists>oid. oid \<noteq> me \<and> (oid, i) \<in> set ts)" by (simp add: taken_iff)
  from s show "fst (findNearestFood ai head fs me (Some ts)) = Some f"
    by (simp add: findNearestFood_def)
  { assume "me \<noteq> -1"
    with s show "snd (findNearestFood ai head fs me (Some ts)) = Some (AList.update me i ts)"
      by (simp add: findNearestFood_def)
    show "map_of (AList.update me i ts) me = Some i" by (simp add: update_conv') }
  { fix j d' assume "j < length fs" "\<not> (\<exists>oid. oid \<noteq> me \<and> (oid, j) \<in> set ts)"
      "foodDist ai head (fs ! j) = Some d'"
    then show "d \<le> d'" using nearestScan_min [OF s, of j d'] by (simp add: taken_iff) }
next
  assume "\<forall>j<length fs. \<exists>oid. oid \<noteq> me \<and> (oid, j) \<in> set ts"
  then have "nearestScan ai head fs me (Some ts) = None"
    by (intro nearestScan_all_taken) (simp add: taken_iff)
  then show "findNearestFood ai head fs me (Some ts) = (None, Some ts)"
    by (simp add: findNearestFood_def)
next
  fix f headB other tsA
  assume a: "me \<noteq> -1 \<and> other \<noteq> me \<and> findNearestFood ai head [f] me (Some ts) = (Some f, Some tsA)"
  then obtain d f' i where s: "nearestScan ai head [f] me (Some ts) = Some (d, f', i)"
    by (cases "nearestScan ai head [f] me (Some ts)") (auto simp: findNearestFood_def)
  from nearestScan_sound [OF s] have "i = 0" by simp
  with a s have "tsA = AList.update me 0 ts" by (auto simp: findNearestFood_def)
  then have "(me, 0) \<in> set tsA" by (simp add: update_mem)
  with a have "\<forall>j<length [f]. taken (Some tsA) other j"
    by (auto simp: taken_iff)
  then have "nearestScan ai headB [f] other (Some tsA) = None"
    by (rule nearestScan_all_taken)
  then show "findNearestFood ai headB [f] other (Some tsA) = (None, Some tsA)"
    by (simp add: findNearestFood_def)
next
  show "fst (findNearestFood ai head fs me (Some ts)) =
     fst (findNearestFood ai head fs me (Some (filter (\<lambda>(oid, tidx). tidx < length fs) ts)))"
    by (simp add: findNearestFood_def nearestScan_stale split: option.splits)
next
  fix g' assume "advance rnd k g hd' = Some g' \<and> hd' \<in> set (foods g)"
  then show "map_of (snakeTargets g') (sid (snakes g ! k)) = None"
    using advance_eat_clears by blast
qed

text \<open>
  The claim as stated, for every call: with the default id \<open>-1\<close> the food at
  index 0 is selected and nothing is recorded.
\<close>

theorem findNearestFood_anonymous_counterexample:
  "fst (findNearestFood ai22 (0, 0) [(0, 1)] (-1) (Some [])) = Some (0, 1) \<and>
   snd (findNearestFood ai22 (0, 0) [(0, 1)] (-1) (Some [])) = Some []"
  by code_simp

theorem findNearestFood_claims_witness:
  "nearestScan ai22 (0, 0) [(0, 1)] 0 (Some [(1, 7)]) = Some (1, (0, 1), 0) \<and>
   fst (findNearestFood ai22 (0, 0) [(0, 1)] 0 (Some [(1, 7)])) = Some (0, 1) \<and>
   snd (findNearestFood ai22 (0, 0) [(0, 1)] 0 (Some [(1, 7)])) = Some (AList.update 0 0 [(1, 7)]) \<and>
   findNearestFood ai22 (1, 1) [(0, 1)] 1 (Some [(1, 7), (0, 0)]) = (None, Some [(1, 7), (0, 0)]) \<and>
   (0, 2) \<in> set (foods gEat) \<and>
   map_option snakeTargets (advance rndSeq 0 gEat (0, 2)) = Some [] \<and>
   map_of [] (sid (snakes gEat ! 0)) = (None :: nat option)"
proof -
  note T = findNearestFood_claims [where ai = ai22 and head = "(0, 0)" and fs = "[(0, 1)]"
      and me = 0 and ts = "[(1, 7)]" and rnd = rndSeq and k = 0 and g = gEat and hd' = "(0, 2)"]
  have h1: "nearestScan ai22 (0, 0) [(0, 1)] 0 (Some [(1, 7)]) = Some (1, (0, 1), 0)"
    by code_simp
  have h2: "findNearestFood ai22 (0, 0) [(0, 1)] 0 (Some [(1, 7)]) = (Some (0, 1), Some [(1, 7), (0, 0)])"
    by code_simp
  have h3: "(0, 2) \<in> set (foods gEat)" by code_simp
  have h4: "map_option snakeTargets (advance rndSeq 0 gEat (0, 2)) = Some []" by code_simp
  note A = T [THEN conjunct1, rule_format, OF h1]
  from A have c1: "fst (findNearestFood ai22 (0, 0) [(0, 1)] 0 (Some [(1, 7)])) = Some (0, 1) \<and>
      snd (findNearestFood ai22 (0, 0) [(0, 1)] 0 (Some [(1, 7)])) = Some (AList.update 0 0 [(1, 7)])"
    by simp
  note C = T [THEN conjunct2, THEN conjunct2, THEN conjunct1, rule_format,
              where f = "(0, 1)" and other = 1 and tsA = "[(1, 7), (0, 0)]" and headB = "(1, 1)"]
  from C h2 have c2: "findNearestFood ai22 (1, 1) [(0, 1)] 1 (Some [(1, 7), (0, 0)]) = (None, Some [(1, 7), (0, 0)])"
    by simp
  from h1 c1 c2 h3 h4 show ?thesis by simp
qed

subsection \<open>C3: shortcut or cycle move on a clear path\<close>

lemma getNeighbors_eq: "getNeighbors ai p = neighbours4 ai p"
  by (simp add: getNeighbors_def neighbours4_def dirs_def Let_def)

lemma buildCycleMap_snoc:
  "buildCycleMap (xs @ [x]) = AList.update x (length xs) (buildCycleMap xs)"
  by (simp add: buildCycleMap_def)

lemma map_of_buildCycleMap_notin:
  "p \<notin> set xs \<Longrightarrow> map_of (buildCycleMap xs) p = None"
proof (induction xs rule: rev_induct)
  case Nil
  then show ?case by (simp add: buildCycleMap_def)
next
  case (snoc x xs)
  then show ?case by (simp add: buildCycleMap_snoc update_conv')
qed

lemma map_of_buildCycleMap_nth:
  "distinct xs \<Longrightarrow> i < length xs \<Longrightarrow> map_of (buildCycleMap xs) (xs ! i) = Some i"
proof (induction xs rule: rev_induct)
  case Nil
  then show ?case by simp
next
  case (snoc x xs)
  show ?case
  proof (cases "i < length xs")
    case True
    with snoc.prems have "xs ! i \<noteq> x" by auto
    with True snoc show ?thesis
      by (simp add: buildCycleMap_snoc update_conv' nth_append)
  next
    case False
    with snoc.prems have "i = length xs" by simp
    then show ?thesis by (simp add: buildCycleMap_snoc update_conv')
  qed
qed

lemma takeWhile_index:
  assumes "distinct xs" and "i < length xs"
  shows "length (takeWhile (\<lambda>q. q \<noteq> xs ! i) xs) = i"
proof -
  let ?k = "length (takeWhile (\<lambda>q. q \<noteq> xs ! i) xs)"
  have "xs ! i \<in> set xs" using assms(2) by simp
  then have "takeWhile (\<lambda>q. q \<noteq> xs ! i) xs \<noteq> xs"
    by (auto simp: takeWhile_eq_all_conv)
  then have k: "?k < length xs"
    using length_takeWhile_le [of "\<lambda>q. q \<noteq> xs ! i" xs]
    by (metis le_neq_implies_less takeWhile_eq_take take_all order_refl)
  from nth_length_takeWhile [OF k] have "xs ! ?k = xs ! i" by simp
  with assms k show ?thesis by (simp add: nth_eq_iff_index_eq)
qed

lemma getCycleIndex_eq:
  assumes "wellFormed ai"
  shows "getCycleIndex ai p = cycleIndexOf ai p"
proof (cases "p \<in> set (hamiltonianCycle ai)")
  case False
  with assms show ?thesis
    by (simp add: getCycleIndex_def cycleIndexOf_def wellFormed_def map_of_buildCycleMap_notin)
next
  case True
  then obtain i where i: "i < length (hamiltonianCycle ai)" "hamiltonianCycle ai ! i = p"
    by (auto simp: in_set_conv_nth)
  with assms have "getCycleIndex ai p = Some i"
    using map_of_buildCycleMap_nth [of "hamiltonianCycle ai" i]
    by (simp add: getCycleIndex_def wellFormed_def)
  moreover from assms i have "cycleIndexOf ai p = Some i"
    using takeWhile_index [of "hamiltonianCycle ai" i] True
    by (simp add: cycleIndexOf_def wellFormed_def)
  ultimately show ?thesis by simp
qed

lemma cycleIndexOf_Some:
  assumes "wellFormed ai" and "cycleIndexOf ai p = Some i"
  shows "i < length (hamiltonianCycle ai) \<and> hamiltonianCycle ai ! i = p"
proof -
  from assms(2) have mem: "p \<in> set (hamiltonianCycle ai)"
    by (simp add: cycleIndexOf_def split: if_splits)
  then obtain j where j: "j < length (hamiltonianCycle ai)" "hamiltonianCycle ai ! j = p"
    by (auto simp: in_set_conv_nth)
  with assms(1) have "length (takeWhile (\<lambda>q. q \<noteq> p) (hamiltonianCycle ai)) = j"
    using takeWhile_index [of "hamiltonianCycle ai" j] by (simp add: wellFormed_def)
  with assms(2) mem j show ?thesis by (simp add: cycleIndexOf_def)
qed


lemma Ball_Suc_split:
  "(\<forall>k\<in>{1..Suc n}. P k) \<longleftrightarrow> P 1 \<and> (\<forall>k\<in>{1..n}. P (Suc k))"
proof
  assume "\<forall>k\<in>{1..Suc n}. P k"
  then show "P 1 \<and> (\<forall>k\<in>{1..n}. P (Suc k))" by auto
next
  assume a: "P 1 \<and> (\<forall>k\<in>{1..n}. P (Suc k))"
  show "\<forall>k\<in>{1..Suc n}. P k"
  proof
    fix k assume "k \<in> {1..Suc n}"
    then have "k = 1 \<or> (\<exists>j\<in>{1..n}. k = Suc j)" by (cases k) auto
    with a show "P k" by auto
  qed
qed

lemma isSafePathLoop_eq:
  assumes "hamiltonianCycle ai \<noteq> []"
  shows "isSafePathLoop ai (Some i) n obs =
           Inr (\<forall>k\<in>{1..n}. hamiltonianCycle ai ! ((i + k) mod length (hamiltonianCycle ai)) \<notin> set obs)"
proof (induction n arbitrary: i)
  case 0
  then show ?case by simp
next
  case (Suc n)
  let ?L = "length (hamiltonianCycle ai)"
  let ?C = "hamiltonianCycle ai"
  have L: "0 < ?L" using assms by simp
  have next': "cycleNext ai (Some i) = Some ((i + 1) mod ?L)"
    using assms by (simp add: cycleNext_def)
  have at: "cycleAt ai (Some ((i + 1) mod ?L)) = Some (?C ! ((i + 1) mod ?L))"
    using L by (simp add: cycleAt_def nthOpt_def)
  have shift: "((i + 1) mod ?L + k) mod ?L = (i + Suc k) mod ?L" for k
    by (simp add: mod_add_left_eq)
  have IH: "isSafePathLoop ai (Some ((i + 1) mod ?L)) n obs =
      Inr (\<forall>k\<in>{1..n}. ?C ! ((i + Suc k) mod ?L) \<notin> set obs)"
    using Suc.IH [of "(i + 1) mod ?L"] by (simp only: shift)
  have split: "(\<forall>k\<in>{1..Suc n}. ?C ! ((i + k) mod ?L) \<notin> set obs) \<longleftrightarrow>
      ?C ! ((i + 1) mod ?L) \<notin> set obs \<and> (\<forall>k\<in>{1..n}. ?C ! ((i + Suc k) mod ?L) \<notin> set obs)"
    by (rule Ball_Suc_split)
  show ?case
    unfolding split using IH
    by (cases "obs = []") (simp_all add: Let_def next' at del: One_nat_def)
qed

lemma isSafePath_eq:
  assumes "wellFormed ai" and "cycleIndexOf ai head = Some hi"
  shows "isSafePath ai head n obs =
           Inr (\<forall>k\<in>{1..n}. hamiltonianCycle ai ! ((hi + k) mod length (hamiltonianCycle ai)) \<notin> set obs)"
proof -
  from cycleIndexOf_Some [OF assms] have "hamiltonianCycle ai \<noteq> []" by auto
  then show ?thesis
    using assms by (simp add: isSafePath_def getCycleIndex_eq isSafePathLoop_eq)
qed

lemma nextPos_eq:
  assumes "wellFormed ai" and "cycleIndexOf ai head = Some hi"
  shows "cycleAt ai (cycleNext ai (Some hi)) =
           Some (hamiltonianCycle ai ! ((hi + 1) mod length (hamiltonianCycle ai)))"
proof -
  from cycleIndexOf_Some [OF assms] have "0 < length (hamiltonianCycle ai)" by auto
  then show ?thesis by (simp add: cycleAt_def cycleNext_def nthOpt_def)
qed

lemma wf66: "wellFormed ai66" by code_simp











subsection \<open>C4: survival moves when the cycle path is blocked\<close>

lemma neighbours4_in_grid: "b \<in> set (neighbours4 ai a) \<Longrightarrow> b \<in> grid (cols ai) (rows ai)"
  by (cases b) (simp add: neighbours4_def grid_def del: filter.simps)

lemma reach_subset: "reach ai blocked start \<subseteq> insert start (grid (cols ai) (rows ai))"
proof
  fix c assume "c \<in> reach ai blocked start"
  then have "(start, c) \<in> (freeStep ai blocked)\<^sup>*" by (simp add: reach_def)
  then show "c \<in> insert start (grid (cols ai) (rows ai))"
    by (induction rule: rtrancl_induct) (auto simp: freeStep_def dest: neighbours4_in_grid)
qed

lemma finite_reach: "finite (reach ai blocked start)"
  by (rule finite_subset [OF reach_subset]) (simp add: finite_grid)

lemma reach_step:
  "a \<in> reach ai blocked start \<Longrightarrow> (a, b) \<in> freeStep ai blocked \<Longrightarrow> b \<in> reach ai blocked start"
  by (auto simp: reach_def intro: rtrancl_into_rtrancl)

lemma reach_closed:
  assumes "start \<in> S" and "\<forall>p\<in>S. \<forall>b. (p, b) \<in> freeStep ai blocked \<longrightarrow> b \<in> S"
  shows "reach ai blocked start \<subseteq> S"
proof
  fix c assume "c \<in> reach ai blocked start"
  then have "(start, c) \<in> (freeStep ai blocked)\<^sup>*" by (simp add: reach_def)
  then show "c \<in> S"
    by (induction rule: rtrancl_induct) (use assms in auto)
qed

lemma fold_floodVisit:
  "\<exists>xs. fold (floodVisit blocked) ns (q, v) = (q @ xs, v @ xs) \<and> distinct xs \<and>
        set xs = {n \<in> set ns. n \<notin> set blocked \<and> n \<notin> set v}"
proof (induction ns arbitrary: q v)
  case Nil
  then show ?case by simp
next
  case (Cons n ns)
  show ?case
  proof (cases "n \<notin> set blocked \<and> n \<notin> set v")
    case True
    from Cons.IH [of "q @ [n]" "v @ [n]"] obtain xs where
      xs: "fold (floodVisit blocked) ns (q @ [n], v @ [n]) = ((q @ [n]) @ xs, (v @ [n]) @ xs)"
        "distinct xs" "set xs = {m \<in> set ns. m \<notin> set blocked \<and> m \<notin> set (v @ [n])}"
      by blast
    have "fold (floodVisit blocked) (n # ns) (q, v) = (q @ (n # xs), v @ (n # xs))"
      using True xs(1) by (simp add: floodVisit_def)
    moreover have "distinct (n # xs)" using xs(2,3) by auto
    moreover have "set (n # xs) = {m \<in> set (n # ns). m \<notin> set blocked \<and> m \<notin> set v}"
      using True xs(3) by auto
    ultimately show ?thesis by blast
  next
    case False
    from Cons.IH [of q v] obtain xs where
      xs: "fold (floodVisit blocked) ns (q, v) = (q @ xs, v @ xs)"
        "distinct xs" "set xs = {m \<in> set ns. m \<notin> set blocked \<and> m \<notin> set v}"
      by blast
    have "fold (floodVisit blocked) (n # ns) (q, v) = (q @ xs, v @ xs)"
      using False xs(1) by (auto simp: floodVisit_def)
    moreover have "set xs = {m \<in> set (n # ns). m \<notin> set blocked \<and> m \<notin> set v}"
      using False xs(3) by auto
    ultimately show ?thesis using xs(2) by blast
  qed
qed

lemma floodInv_step:
  assumes inv: "floodInv ai blocked start P queue visited count"
    and ne: "queue \<noteq> []" and lt: "count < 300"
    and qv: "qv = fold (floodVisit blocked) (getNeighbors ai (hd queue)) (tl queue, visited)"
  shows "floodInv ai blocked start (insert (hd queue) P) (fst qv) (snd qv) (Suc count)"
proof -
  obtain c rest where q: "queue = c # rest" using ne by (cases queue) auto
  from fold_floodVisit [of blocked "getNeighbors ai c" rest visited] obtain xs where
    xs: "fold (floodVisit blocked) (getNeighbors ai c) (rest, visited) = (rest @ xs, visited @ xs)"
      "distinct xs"
      "set xs = {n \<in> set (getNeighbors ai c). n \<notin> set blocked \<and> n \<notin> set visited}"
    by blast
  have qv': "fst qv = rest @ xs" "snd qv = visited @ xs" using qv q xs(1) by simp_all
  from inv [unfolded floodInv_def] have d: "distinct queue" and disj: "set queue \<inter> P = {}"
    and vis: "set visited = P \<union> set queue" and fin: "finite P" and cnt: "card P = count"
    and st: "start \<in> set visited" and sub: "set visited \<subseteq> reach ai blocked start"
    and cl: "\<forall>p\<in>P. \<forall>b. (p, b) \<in> freeStep ai blocked \<longrightarrow> b \<in> set visited"
    by blast+
  have cP: "c \<notin> P" using disj q by auto
  have cR: "c \<in> reach ai blocked start" using sub vis q by auto
  have xs_step: "\<forall>x\<in>set xs. (c, x) \<in> freeStep ai blocked"
    using xs(3) by (auto simp: freeStep_def getNeighbors_eq)
  have 1: "distinct (rest @ xs)" using d q xs(2,3) vis by auto
  have 2: "set (rest @ xs) \<inter> insert c P = {}" using d q disj xs(3) vis by auto
  have 3: "set (visited @ xs) = insert c P \<union> set (rest @ xs)" using vis q by auto
  have 4: "card (insert c P) = Suc count" using fin cP cnt by simp
  have 5: "set (visited @ xs) \<subseteq> reach ai blocked start"
    using sub xs_step cR by (auto intro: reach_step)
  have 6: "\<forall>p\<in>insert c P. \<forall>b. (p, b) \<in> freeStep ai blocked \<longrightarrow> b \<in> set (visited @ xs)"
  proof (intro ballI allI impI)
    fix p b assume p: "p \<in> insert c P" and s: "(p, b) \<in> freeStep ai blocked"
    show "b \<in> set (visited @ xs)"
    proof (cases "p = c")
      case True
      with s xs(3) show ?thesis by (auto simp: freeStep_def getNeighbors_eq)
    next
      case False
      with p have "p \<in> P" by simp
      with cl s have "b \<in> set visited" by blast
      then show ?thesis by simp
    qed
  qed
  have 7: "finite (insert c P)" using fin by simp
  have 8: "Suc count \<le> 300" using lt by simp
  have 9: "start \<in> set (visited @ xs)" using st by simp
  have hdq: "hd queue = c" using q by simp
  from 1 2 3 4 5 6 7 8 9 show ?thesis
    unfolding floodInv_def qv' hdq by blast
qed

lemma floodLoop_correct:
  "floodInv ai blocked start P queue visited count \<Longrightarrow>
     floodLoop ai blocked queue visited count = min 300 (card (reach ai blocked start))"
proof (induction ai blocked queue visited count arbitrary: P rule: floodLoop.induct)
  case (1 ai blocked queue visited count)
  note inv = "1.prems"
  show ?case
  proof (cases "queue \<noteq> [] \<and> count < 300")
    case True
    define qv where "qv = fold (floodVisit blocked) (getNeighbors ai (hd queue)) (tl queue, visited)"
    from floodInv_step [OF inv _ _ qv_def] True
    have "floodInv ai blocked start (insert (hd queue) P) (fst qv) (snd qv) (Suc count)" by simp
    from "1.IH" [OF True qv_def this] True show ?thesis
      by (subst floodLoop.simps) (simp add: Let_def qv_def)
  next
    case False
    from inv [unfolded floodInv_def]
    have vis: "set visited = P \<union> set queue" and fin: "finite P" and cnt: "card P = count"
      and le: "count \<le> 300" and d: "distinct queue" and disj: "set queue \<inter> P = {}"
      and st: "start \<in> set visited" and sub: "set visited \<subseteq> reach ai blocked start"
      and cl: "\<forall>p\<in>P. \<forall>b. (p, b) \<in> freeStep ai blocked \<longrightarrow> b \<in> set visited"
      by blast+
    have res: "floodLoop ai blocked queue visited count = count"
      using False by (subst floodLoop.simps) auto
    show ?thesis
    proof (cases "queue = []")
      case True
      with vis st cl have "reach ai blocked start \<subseteq> P"
        by (intro reach_closed) auto
      with sub vis True have "reach ai blocked start = P" by auto
      with cnt le res show ?thesis by simp
    next
      case False
      with \<open>\<not> (queue \<noteq> [] \<and> count < 300)\<close> le have c300: "count = 300" by simp
      have "card P \<le> card (reach ai blocked start)"
        using sub vis by (intro card_mono finite_reach) auto
      with cnt c300 res show ?thesis by simp
    qed
  qed
qed

lemma floodFill_correct:
  "floodFill ai start blocked = min 300 (card (reach ai blocked start))"
proof -
  have "floodInv ai blocked start {} [start] [start] 0"
    by (simp add: floodInv_def reach_def)
  from floodLoop_correct [OF this] show ?thesis by (simp add: floodFill_def)
qed

lemma surviveScore_eq: "surviveScore ai snake blocked n = survivalScore ai snake blocked n"
  by (simp add: surviveScore_def survivalScore_def openArea_def floodFill_correct)

lemma surviveStep_blocked:
  "n \<in> set snake \<or> n \<in> set blocked \<Longrightarrow> surviveStep ai snake blocked n acc = acc"
  by (auto simp: surviveStep_def)

lemma surviveStep_free:
  assumes "n \<notin> set snake" and "n \<notin> set blocked"
  shows "\<exists>a'. surviveStep ai snake blocked n acc = Some a' \<and>
           surviveScore ai snake blocked n \<le> snd a' \<and>
           (a' = (n, surviveScore ai snake blocked n) \<or> acc = Some a') \<and>
           (\<forall>a0. acc = Some a0 \<longrightarrow> snd a0 \<le> snd a')"
  using assms by (cases acc; cases n) (auto simp: surviveStep_def Let_def)

lemma fold_surviveStep:
  "(fold (surviveStep ai snake blocked) ns acc = None \<longleftrightarrow>
      acc = None \<and> (\<forall>n\<in>set ns. n \<in> set snake \<or> n \<in> set blocked)) \<and>
   (\<forall>a. fold (surviveStep ai snake blocked) ns acc = Some a \<longrightarrow>
      ((fst a \<in> set ns \<and> fst a \<notin> set snake \<and> fst a \<notin> set blocked \<and>
        snd a = surviveScore ai snake blocked (fst a)) \<or> acc = Some a) \<and>
      (\<forall>n\<in>set ns. n \<notin> set snake \<and> n \<notin> set blocked \<longrightarrow>
         surviveScore ai snake blocked n \<le> snd a) \<and>
      (\<forall>a0. acc = Some a0 \<longrightarrow> snd a0 \<le> snd a))"
proof (induction ns arbitrary: acc)
  case Nil
  then show ?case by simp
next
  case (Cons n ns)
  show ?case
  proof (cases "n \<in> set snake \<or> n \<in> set blocked")
    case True
    with Cons.IH [of acc] show ?thesis
      by (simp add: surviveStep_blocked) blast
  next
    case False
    with surviveStep_free [of n snake blocked ai acc] obtain a' where
      a': "surviveStep ai snake blocked n acc = Some a'"
        "surviveScore ai snake blocked n \<le> snd a'"
        "a' = (n, surviveScore ai snake blocked n) \<or> acc = Some a'"
        "\<forall>a0. acc = Some a0 \<longrightarrow> snd a0 \<le> snd a'"
      by blast
    from Cons.IH [of "Some a'"] a' False show ?thesis
      by (simp add: a'(1)) (fastforce)
  qed
qed

lemma survive_None_iff:
  "survive ai head snake blocked reason = None \<longleftrightarrow>
     (\<forall>n\<in>set (neighbours4 ai head). n \<in> set snake \<or> n \<in> set blocked)"
  using fold_surviveStep [of ai snake blocked "neighbours4 ai head" None]
  by (auto simp: survive_def getNeighbors_eq split: option.splits)

lemma survive_Some:
  assumes "survive ai head snake blocked reason = Some m"
  shows "\<exists>n\<in>set (neighbours4 ai head). n \<notin> set snake \<and> n \<notin> set blocked \<and>
           m = Move (fst n - fst head) (snd n - snd head) ''survival'' (Some reason)
                 (Some (survivalScore ai snake blocked n)) \<and>
           (\<forall>n'\<in>set (neighbours4 ai head). n' \<notin> set snake \<and> n' \<notin> set blocked \<longrightarrow>
              survivalScore ai snake blocked n' \<le> survivalScore ai snake blocked n)"
proof -
  from assms obtain a where a: "fold (surviveStep ai snake blocked) (neighbours4 ai head) None = Some a"
    and m: "m = Move (fst (fst a) - fst head) (snd (fst a) - snd head) ''survival'' (Some reason) (Some (snd a))"
    by (auto simp: survive_def getNeighbors_eq split: option.splits)
  from fold_surviveStep [of ai snake blocked "neighbours4 ai head" None] a
  have 1: "fst a \<in> set (neighbours4 ai head)" "fst a \<notin> set snake" "fst a \<notin> set blocked"
      "snd a = surviveScore ai snake blocked (fst a)"
    and 2: "\<forall>n\<in>set (neighbours4 ai head). n \<notin> set snake \<and> n \<notin> set blocked \<longrightarrow>
         surviveScore ai snake blocked n \<le> snd a"
    by auto
  show ?thesis
    using 1 2 m by (intro bexI [of _ "fst a"]) (simp_all add: surviveScore_eq)
qed

lemma blockedAhead_unsafe:
  assumes "wellFormed ai" and "cycleAhead ai head 1 = Some np" and "blockedAhead ai head obs"
  shows "isSafePath ai head 5 obs = Inr False"
proof -
  from assms(2) obtain hi where hi: "cycleIndexOf ai head = Some hi"
    by (auto simp: cycleAhead_def split: option.splits)
  have "\<not> (\<forall>k\<in>{1..5}. hamiltonianCycle ai ! ((hi + k) mod length (hamiltonianCycle ai)) \<notin> set obs)"
    using assms(3) hi by (auto simp: blockedAhead_def cycleAhead_def list_ex_iff)
  then show ?thesis by (simp add: isSafePath_eq [OF assms(1) hi])
qed

lemma getNextMove_blocked:
  assumes wf: "wellFormed ai" and ah: "cycleAhead ai head 1 = Some np"
  shows "(np \<in> set obs \<or> Some np = poison \<longrightarrow>
            getNextMove ai (head # rest) fs poison obs me st =
              Inr (survive ai head (head # rest) (obs @ (case poison of None \<Rightarrow> [] | Some p \<Rightarrow> [p]))
                     ''Immediate Blockage'', ai, st)) \<and>
         (np \<notin> set obs \<and> Some np \<noteq> poison \<and> blockedAhead ai head obs \<longrightarrow>
            getNextMove ai (head # rest) fs poison obs me st =
              Inr (survive ai head (head # rest) (obs @ (case poison of None \<Rightarrow> [] | Some p \<Rightarrow> [p]))
                     ''Path Blocked Ahead'', ai, st))"
proof -
  from ah obtain hi where hi: "cycleIndexOf ai head = Some hi"
    by (auto simp: cycleAhead_def split: option.splits)
  have init: "isInitialized ai" using wf by (simp add: wellFormed_def)
  have gi: "getCycleIndex ai head = Some hi" using hi by (simp add: getCycleIndex_eq [OF wf])
  have np: "cycleAt ai (cycleNext ai (Some hi)) = Some np"
    using nextPos_eq [OF wf hi] ah hi by (simp add: cycleAhead_def del: One_nat_def)
  show ?thesis
  proof (intro conjI impI)
    assume "np \<in> set obs \<or> Some np = poison"
    then show "getNextMove ai (head # rest) fs poison obs me st =
              Inr (survive ai head (head # rest) (obs @ (case poison of None \<Rightarrow> [] | Some p \<Rightarrow> [p]))
                     ''Immediate Blockage'', ai, st)"
      by (cases poison) (auto simp: getNextMove_def init gi np Let_def)
  next
    assume a: "np \<notin> set obs \<and> Some np \<noteq> poison \<and> blockedAhead ai head obs"
    then have unsafe: "isSafePath ai head 5 obs = Inr False"
      using blockedAhead_unsafe [OF wf ah] by simp
    from a show "getNextMove ai (head # rest) fs poison obs me st =
              Inr (survive ai head (head # rest) (obs @ (case poison of None \<Rightarrow> [] | Some p \<Rightarrow> [p]))
                     ''Path Blocked Ahead'', ai, st)"
      by (cases poison) (auto simp: getNextMove_def init gi np unsafe Let_def)
  qed
qed

text \<open>
  C4. With a well-formed controller and the head on the cycle, \<open>np\<close> being
  the next cycle cell: when \<open>np\<close> is obstructed (an obstacle or the poison
  cell) \<^verbatim>\<open>getNextMove\<close> returns the survival result with reason
  \<open>Immediate Blockage\<close>; otherwise, when one of the five cycle cells ahead is
  in the obstacle list, the survival result with reason \<open>Path Blocked Ahead\<close>.
  The lookahead is given the obstacle list alone: the poison cell counts in
  the first check and in the survival search, not in the lookahead. The
  survival result is \<open>null\<close> exactly when every in-grid neighbour of the
  head is on the snake or obstructed; otherwise it is the step to a free
  neighbour whose score is maximal among the free neighbours, the score being
  the number of cells reachable from the neighbour through free cells, capped
  at 300, minus twice its danger score.
\<close>

theorem getNextMove_survival:
  assumes "wellFormed ai" and "cycleAhead ai head 1 = Some np"
  shows "(np \<in> set obs \<or> Some np = poison \<longrightarrow>
            getNextMove ai (head # rest) fs poison obs me st =
              Inr (survive ai head (head # rest) (obs @ (case poison of None \<Rightarrow> [] | Some p \<Rightarrow> [p]))
                     ''Immediate Blockage'', ai, st)) \<and>
         (np \<notin> set obs \<and> Some np \<noteq> poison \<and> blockedAhead ai head obs \<longrightarrow>
            getNextMove ai (head # rest) fs poison obs me st =
              Inr (survive ai head (head # rest) (obs @ (case poison of None \<Rightarrow> [] | Some p \<Rightarrow> [p]))
                     ''Path Blocked Ahead'', ai, st)) \<and>
         (survive ai head snake blocked reason = None \<longleftrightarrow>
            (\<forall>n\<in>set (neighbours4 ai head). n \<in> set snake \<or> n \<in> set blocked)) \<and>
         (\<forall>m. survive ai head snake blocked reason = Some m \<longrightarrow>
            (\<exists>n\<in>set (neighbours4 ai head). n \<notin> set snake \<and> n \<notin> set blocked \<and>
               m = Move (fst n - fst head) (snd n - snd head) ''survival'' (Some reason)
                     (Some (survivalScore ai snake blocked n)) \<and>
               (\<forall>n'\<in>set (neighbours4 ai head). n' \<notin> set snake \<and> n' \<notin> set blocked \<longrightarrow>
                  survivalScore ai snake blocked n' \<le> survivalScore ai snake blocked n)))"
  using getNextMove_blocked [OF assms, of obs poison rest fs me st]
    survive_None_iff [of ai head snake blocked reason]
    survive_Some [of ai head snake blocked reason]
  by blast

theorem getNextMove_survival_witness:
  "wellFormed ai66 \<and> cycleAhead ai66 (3, 3) 1 = Some (4, 3) \<and>
   getNextMove ai66 [(3, 3), (3, 4), (3, 5)] [(0, 0)] None [(4, 3)] 0 (Some []) =
     Inr (Some (Move 0 (- 1) ''survival'' (Some ''Immediate Blockage'') (Some 12)), ai66, Some []) \<and>
   blockedAhead ai66 (3, 3) [(4, 4)] \<and>
   getNextMove ai66 [(3, 3), (3, 4), (3, 5)] [(0, 0)] None [(4, 4)] 0 (Some []) =
     Inr (Some (Move 0 (- 1) ''survival'' (Some ''Path Blocked Ahead'') (Some 12)), ai66, Some []) \<and>
   survive ai66 (0, 3) [(0, 3), (0, 2), (0, 1)] [(0, 4), (1, 3)] ''Immediate Blockage'' = None \<and>
   survivalScore ai66 [(3, 3), (3, 4), (3, 5)] [(4, 3)] (3, 2) = 12 \<and>
   getNextMove ai66 [(0, 3), (0, 2), (0, 1)] [(0, 0)] None [(0, 4), (1, 3)] 0 (Some []) =
     Inr (None, ai66, Some [])"
proof -
  have e1: "wellFormed ai66" by code_simp
  have e2: "cycleAhead ai66 (3, 3) 1 = Some (4, 3)" by code_simp
  have e3: "blockedAhead ai66 (3, 3) [(4, 4)]" by code_simp
  have s1: "survive ai66 (3, 3) [(3, 3), (3, 4), (3, 5)] [(4, 3)] ''Immediate Blockage'' =
      Some (Move 0 (- 1) ''survival'' (Some ''Immediate Blockage'') (Some 12))" by code_simp
  have s2: "survive ai66 (3, 3) [(3, 3), (3, 4), (3, 5)] [(4, 4)] ''Path Blocked Ahead'' =
      Some (Move 0 (- 1) ''survival'' (Some ''Path Blocked Ahead'') (Some 12))" by code_simp
  have s3: "\<forall>n\<in>set (neighbours4 ai66 (0, 3)). n \<in> set [(0, 3), (0, 2), (0, 1)] \<or> n \<in> set [(0, 4), (1, 3)]"
    by code_simp
  note T1 = getNextMove_survival [OF e1 e2, where obs = "[(4, 3)]" and poison = None
      and rest = "[(3, 4), (3, 5)]" and fs = "[(0, 0)]" and me = 0 and st = "Some []"
      and snake = "[(3, 3), (3, 4), (3, 5)]" and blocked = "[(4, 3)]" and reason = "''Immediate Blockage''"]
  from T1 s1 have c1: "getNextMove ai66 [(3, 3), (3, 4), (3, 5)] [(0, 0)] None [(4, 3)] 0 (Some []) =
     Inr (Some (Move 0 (- 1) ''survival'' (Some ''Immediate Blockage'') (Some 12)), ai66, Some [])"
    by simp
  from T1 [THEN conjunct2, THEN conjunct2, THEN conjunct2, rule_format, OF s1]
  have c4: "survivalScore ai66 [(3, 3), (3, 4), (3, 5)] [(4, 3)] (3, 2) = 12"
    by (auto simp: prod_eq_iff)
  note T2 = getNextMove_survival [OF e1 e2, where obs = "[(4, 4)]" and poison = None
      and rest = "[(3, 4), (3, 5)]" and fs = "[(0, 0)]" and me = 0 and st = "Some []"]
  from T2 e3 s2 have c2: "getNextMove ai66 [(3, 3), (3, 4), (3, 5)] [(0, 0)] None [(4, 4)] 0 (Some []) =
     Inr (Some (Move 0 (- 1) ''survival'' (Some ''Path Blocked Ahead'') (Some 12)), ai66, Some [])"
    by simp
  have e2b: "cycleAhead ai66 (0, 3) 1 = Some (0, 4)" by code_simp
  note T3 = getNextMove_survival [OF e1 e2b, where obs = "[(0, 4), (1, 3)]" and poison = None
      and rest = "[(0, 2), (0, 1)]" and fs = "[(0, 0)]" and me = 0 and st = "Some []"
      and snake = "[(0, 3), (0, 2), (0, 1)]" and blocked = "[(0, 4), (1, 3)]"
      and reason = "''Immediate Blockage''"]
  from T3 [THEN conjunct2, THEN conjunct2, THEN conjunct1] s3
  have c3: "survive ai66 (0, 3) [(0, 3), (0, 2), (0, 1)] [(0, 4), (1, 3)] ''Immediate Blockage'' = None"
    by blast
  from T3 c3 have c5: "getNextMove ai66 [(0, 3), (0, 2), (0, 1)] [(0, 0)] None [(0, 4), (1, 3)] 0 (Some []) =
     Inr (None, ai66, Some [])"
    by simp
  from e1 e2 c1 e3 c2 c3 c4 c5 show ?thesis by simp
qed

text \<open>
  The poison cell against the two blockage checks, on the 6x6 grid with the
  head at \<open>(3, 3)\<close>, whose next cycle cells are \<open>(4, 3)\<close> and \<open>(4, 4)\<close>. With
  the poison on \<open>(4, 4)\<close> and no obstacle, the lookahead does not see it and
  the answer is a shortcut, where the same cell in the obstacle list gives a
  survival move with reason \<open>Path Blocked Ahead\<close>. With the poison on
  \<open>(4, 3)\<close> and the obstacle on \<open>(4, 4)\<close> the reason is
  \<open>Immediate Blockage\<close>.
\<close>

theorem getNextMove_poison_counterexample:
  "cycleAhead ai66 (3, 3) 1 = Some (4, 3) \<and> cycleAhead ai66 (3, 3) 2 = Some (4, 4) \<and>
   map_sum id fst (getNextMove ai66 [(3, 3), (3, 4), (3, 5)] [(0, 0)] (Some (4, 4)) [] 0 (Some [])) =
     Inr (Some (Move 0 (- 1) ''shortcut'' (Some ''Safe Shortcut'') None)) \<and>
   map_sum id fst (getNextMove ai66 [(3, 3), (3, 4), (3, 5)] [(0, 0)] None [(4, 4)] 0 (Some [])) =
     Inr (Some (Move 0 (- 1) ''survival'' (Some ''Path Blocked Ahead'') (Some 12))) \<and>
   map_sum id fst (getNextMove ai66 [(3, 3), (3, 4), (3, 5)] [(0, 0)] (Some (4, 3)) [(4, 4)] 0 (Some [])) =
     Inr (Some (Move 0 (- 1) ''survival'' (Some ''Immediate Blockage'') (Some (- 9))))"
  by code_simp

subsection \<open>C6: the food loop on a grid with fewer than five free cells\<close>

lemma finite_freeCells: "finite (freeCells g)"
  by (rule finite_subset [of _ "grid (TILE_COLS g) (TILE_ROWS g)"])
     (auto simp: freeCells_def finite_grid)

lemma freeCells_upd:
  "freeCells (g\<lparr>mathRandomCalls := n\<rparr>) = freeCells g"
  "freeCells (g\<lparr>foods := fs\<rparr>) = freeCells g"
  by (simp_all add: freeCells_def)

lemma floor_scaled:
  fixes r :: rat
  assumes "0 \<le> r" and "r < 1" and "0 < n"
  shows "0 \<le> \<lfloor>r * of_int n\<rfloor> \<and> \<lfloor>r * of_int n\<rfloor> < n"
proof
  have "0 \<le> r * of_int n" using assms by simp
  then show "0 \<le> \<lfloor>r * of_int n\<rfloor>" by simp
  have "r * of_int n < 1 * of_int n"
    using assms by (intro mult_strict_right_mono) simp_all
  then show "\<lfloor>r * of_int n\<rfloor> < n" by (simp add: floor_less_iff)
qed

lemma spawnLoop_calls:
  "mathRandomCalls (spawnLoop rnd g a) \<le> mathRandomCalls g + 2 * (50 - a) \<and>
   length (foods (spawnLoop rnd g a)) \<le> Suc (length (foods g))"
proof (induction rnd g a rule: spawnLoop.induct)
  case (1 rnd g attempts)
  show ?case
  proof (cases "attempts < 50")
    case False
    then show ?thesis by (subst (1 2) spawnLoop.simps) simp
  next
    case True
    with 1 [OF True refl refl] show ?thesis
      by (subst (1 2) spawnLoop.simps) (auto simp: Let_def)
  qed
qed

lemma spawnLoop_starved:
  "rndOk rnd \<Longrightarrow> starved g \<Longrightarrow> starved (spawnLoop rnd g a)"
proof (induction rnd g a rule: spawnLoop.induct)
  case (1 rnd' g attempts)
  note st = "1.prems"(2)
  show ?case
  proof (cases "attempts < 50")
    case False
    with st show ?thesis by (subst spawnLoop.simps) simp
  next
    case True
    let ?newFood = "(\<lfloor>rnd' (mathRandomCalls g) * of_int (TILE_COLS g)\<rfloor>,
                       \<lfloor>rnd' (Suc (mathRandomCalls g)) * of_int (TILE_ROWS g)\<rfloor>)"
    let ?g' = "g\<lparr>mathRandomCalls := mathRandomCalls g + 2\<rparr>"
    have st': "starved ?g'" using st by (simp add: starved_def freeCells_upd)
    show ?thesis
    proof (cases "occupied g ?newFood")
      case True
      from "1.IH" [OF \<open>attempts < 50\<close> refl refl _ "1.prems"(1) st'] True
      have "starved (spawnLoop rnd' ?g' (Suc attempts))" by simp
      with True \<open>attempts < 50\<close> show ?thesis
        by (subst spawnLoop.simps) (simp add: Let_def)
    next
      case False
      have res: "spawnLoop rnd' g attempts = ?g'\<lparr>foods := foods g @ [?newFood]\<rparr>"
        using False \<open>attempts < 50\<close>
        by (subst spawnLoop.simps) (simp add: Let_def)
      have inGrid: "?newFood \<in> grid (TILE_COLS g) (TILE_ROWS g)"
        using floor_scaled [of "rnd' (mathRandomCalls g)" "TILE_COLS g"]
          floor_scaled [of "rnd' (Suc (mathRandomCalls g))" "TILE_ROWS g"] st "1.prems"(1)
        by (simp add: grid_def rndOk_def starved_def)
      with False have "?newFood \<in> freeCells g" "?newFood \<notin> set (foods g)"
        by (simp_all add: occupied_def freeCells_def)
      with st show ?thesis
        unfolding res by (simp add: starved_def freeCells_upd)
    qed
  qed
qed

lemma starved_short: "starved g \<Longrightarrow> length (foods g) < 5"
proof -
  assume s: "starved g"
  then have "length (foods g) = card (set (foods g))"
    by (simp add: starved_def distinct_card)
  also have "\<dots> \<le> card (freeCells g)"
    using s by (intro card_mono finite_freeCells) (simp add: starved_def)
  finally show ?thesis using s by (simp add: starved_def)
qed

lemma maintainFoodCount_not_starved:
  assumes "rndOk rnd" and "maintainFoodCount rnd g = Some y"
  shows "\<not> starved g"
proof (rule maintainFoodCount.raw_induct
         [where P = "\<lambda>r g y. rndOk r \<longrightarrow> \<not> starved g", OF _ assms(2), THEN mp, OF _ assms(1)])
  fix mfc :: "(nat \<Rightarrow> rat) \<Rightarrow> game \<Rightarrow> game option" and r g y
  assume IH: "\<And>a b y. mfc a b = Some y \<Longrightarrow> rndOk a \<longrightarrow> \<not> starved b"
    and eq: "(if length (foods g) < 5 then mfc r (spawnSingleFood r g) else Some g) = Some y"
  show "rndOk r \<longrightarrow> \<not> starved g"
  proof (intro impI notI)
    assume ok: "rndOk r" and s: "starved g"
    from starved_short [OF s] eq have "mfc r (spawnSingleFood r g) = Some y" by simp
    from IH [OF this] ok have "\<not> starved (spawnSingleFood r g)" by simp
    with spawnLoop_starved [OF ok s] show False by (simp add: spawnSingleFood_def)
  qed
qed

lemma small_grid_starved:
  assumes "0 < TILE_COLS g" and "0 < TILE_ROWS g" and "TILE_COLS g * TILE_ROWS g < 5"
    and "foods g = []"
  shows "starved g"
proof -
  have "card (freeCells g) \<le> card (grid (TILE_COLS g) (TILE_ROWS g))"
    by (intro card_mono finite_grid) (auto simp: freeCells_def)
  also have "\<dots> = nat (TILE_COLS g) * nat (TILE_ROWS g)"
    by (simp add: grid_def)
  also have "\<dots> = nat (TILE_COLS g * TILE_ROWS g)"
    using assms(1,2) by (simp add: nat_mult_distrib)
  finally show ?thesis using assms by (simp add: starved_def)
qed

text \<open>
  C6. Each call of \<^verbatim>\<open>spawnSingleFood\<close> is bounded: it draws at most 100
  values of \<^verbatim>\<open>Math.random\<close> (50 attempts) and adds at most one food item.
  The loop of \<^verbatim>\<open>maintainFoodCount\<close> around it is not: from a state with
  fewer than five free cells it never returns, whatever \<^verbatim>\<open>Math.random\<close>
  yields, where the claim says that it returns with fewer than five items.
\<close>

theorem maintainFoodCount_diverges:
  "mathRandomCalls (spawnSingleFood rnd g) \<le> mathRandomCalls g + 100 \<and>
   length (foods (spawnSingleFood rnd g)) \<le> Suc (length (foods g)) \<and>
   (rndOk rnd \<and> starved g \<longrightarrow> maintainFoodCount rnd g = None)"
proof (intro conjI impI)
  show "mathRandomCalls (spawnSingleFood rnd g) \<le> mathRandomCalls g + 100"
    using spawnLoop_calls [of rnd g 0] by (simp add: spawnSingleFood_def)
  show "length (foods (spawnSingleFood rnd g)) \<le> Suc (length (foods g))"
    using spawnLoop_calls [of rnd g 0] by (simp add: spawnSingleFood_def)
  assume "rndOk rnd \<and> starved g"
  then show "maintainFoodCount rnd g = None"
    using maintainFoodCount_not_starved [of rnd g] by (cases "maintainFoodCount rnd g") auto
qed

lemma rndOk_rndSeq: "rndOk rndSeq"
proof -
  have "list_all (\<lambda>r. 0 \<le> r \<and> r < 1)
     [1/8, 1/8, 3/8, 1/8, 5/8, 1/8, 7/8, 1/8, 1/8, 3/8, 3/8, 3/8, 5/8, 3/8, 7/8, 3/8,
      1/8, 5/8, 3/8, 5/8, 5/8, 5/8, 7/8, 5/8, 1/8, 7/8, 3/8, 7/8, 5/8, 7/8, 7/8, 7/8 :: rat]"
    by simp
  then show ?thesis
    unfolding rndOk_def rndSeq_def list_all_length by simp
qed

text \<open>
  The failing input: a window of 100 by 100 pixels gives a 2x2 grid, whose
  four cells cannot hold five food items, and \<^verbatim>\<open>initGame\<close> never returns.
\<close>

theorem maintainFoodCount_diverges_witness:
  "rndOk rndSeq \<and> resizeCanvas rndSeq 100 100 1700000000000 0 = None"
proof -
  obtain ss ai' where sn: "initSnakes (SnakeAI_new 2 2 1700000000000 1700000000000) = Inr (ss, ai')"
    by (cases "initSnakes (SnakeAI_new 2 2 1700000000000 1700000000000)") (code_simp, auto)
  let ?g = "\<lparr>TILE_COLS = 2, TILE_ROWS = 2, snakes = ss, foods = [],
            aiController = Some ai', snakeTargets = [], mathRandomCalls = 0\<rparr>"
  have "starved ?g" by (rule small_grid_starved) simp_all
  with rndOk_rndSeq maintainFoodCount_diverges [of rndSeq ?g]
  have "maintainFoodCount rndSeq ?g = None" by simp
  with sn rndOk_rndSeq show ?thesis
    by (simp add: resizeCanvas_def evenDown_def initGame_def Let_def)
qed

subsection \<open>One tick on a 4x4 grid\<close>

lemma resizeCanvas_gStart: "resizeCanvas rndSeq 160 160 1700000000007 0 = Some (Inr gStart)"
  by code_simp

lemma stepSnake_gStart: "stepSnake rndSeq 0 gStart = Some (Inr gMid)"
  by code_simp

lemma stepSnake_gMid: "stepSnake rndSeq 1 gMid = Some (Inr gTick)"
  by code_simp

lemma stepSnake_gStart_alt: "stepSnake rndAlt 0 gStart = Some (Inr gMid)"
  by code_simp

lemma stepSnake_gMid_alt: "stepSnake rndAlt 1 gMid = Some (Inr gTickAlt)"
  by code_simp

lemma gStart_snakes: "length (snakes gStart) = 2"
  by (simp add: gStart_def)

lemma upt_2: "[0..<2] = [0, 1]"
  by (simp add: upt_rec)

lemma gameLoop_gStart: "gameLoop rndSeq gStart = Some (Inr gTick)"
  using stepSnake_gStart stepSnake_gMid by (simp add: gameLoop_def gStart_snakes upt_2)

lemma gameLoop_gStart_alt: "gameLoop rndAlt gStart = Some (Inr gTickAlt)"
  using stepSnake_gStart_alt stepSnake_gMid_alt by (simp add: gameLoop_def gStart_snakes upt_2)

subsection \<open>C8: disjoint bodies at tick boundaries\<close>

lemma decide_snakes:
  assumes "decide i g = Inr g1"
  shows "\<exists>s2. snakes g1 = (snakes g)[i := s2] \<and> body s2 = body (snakes g ! i) \<and>
               sid s2 = sid (snakes g ! i) \<and> colorIndex s2 = colorIndex (snakes g ! i)"
proof (cases "aiController g")
  case None
  with assms show ?thesis by (auto simp: decide_def Let_def)
next
  case (Some ai)
  with assms show ?thesis
    by (auto simp: decide_def Let_def split: sum.splits option.splits prod.splits)
qed

lemma advance_snakes:
  assumes "advance rnd i g head = Some g'"
  shows "\<exists>b. snakes g' = (snakes g)[i := (snakes g ! i)\<lparr>body := b\<rparr>] \<and>
             set b \<subseteq> insert head (set (body (snakes g ! i)))"
proof (cases "findIndex (\<lambda>f. fst head = fst f \<and> snd head = snd f) (foods g)")
  case None
  have "set (butlast (head # body (snakes g ! i))) \<subseteq> insert head (set (body (snakes g ! i)))"
  proof
    fix x assume "x \<in> set (butlast (head # body (snakes g ! i)))"
    from in_set_butlastD [OF this] show "x \<in> insert head (set (body (snakes g ! i)))" by simp
  qed
  with None assms show ?thesis
    by (auto simp: advance_def Let_def simp del: butlast.simps)
next
  case (Some k)
  with assms have "snakes g' = (snakes g)[i := (snakes g ! i)\<lparr>body := head # body (snakes g ! i)\<rparr>]"
    using maintainFoodCount_frame [of rnd _ g'] by (auto simp: advance_def Let_def frameEq_def)
  then show ?thesis by auto
qed

lemma noOverlap_update:
  assumes no: "noOverlap ss" and i: "i < length ss"
    and b: "set b \<subseteq> insert head (set (body (ss ! i)))"
    and h: "\<forall>j<length ss. j \<noteq> i \<longrightarrow> head \<notin> set (body (ss ! j))"
    and s: "body s = b"
  shows "noOverlap (ss[i := s])"
  unfolding noOverlap_def
proof (intro allI impI)
  fix a c
  assume a: "a < length (ss[i := s])" and c: "c < length (ss[i := s])" and ne: "a \<noteq> c"
  from no a c ne have d: "set (body (ss ! a)) \<inter> set (body (ss ! c)) = {}"
    by (simp add: noOverlap_def)
  show "set (body (ss[i := s] ! a)) \<inter> set (body (ss[i := s] ! c)) = {}"
  proof (cases "a = i")
    case True
    with ne have ci: "c \<noteq> i" by simp
    with c h have "head \<notin> set (body (ss ! c))" by simp
    with True ci d b s i show ?thesis by (auto simp: nth_list_update)
  next
    case False
    show ?thesis
    proof (cases "c = i")
      case True
      with a h False have "head \<notin> set (body (ss ! a))" by simp
      with True False d b s i show ?thesis by (auto simp: nth_list_update)
    next
      case c': False
      with False d show ?thesis by (simp add: nth_list_update)
    qed
  qed
qed

text \<open>
  C8. An iteration of \<^verbatim>\<open>gameLoop\<close> in which the snake does not collide keeps
  the bodies of the snakes pairwise disjoint, when the ids are distinct: the
  new head is checked against every other body. An iteration that respawns
  the snake is left out, since \<^verbatim>\<open>getStartState\<close> places the fresh body on
  the cycle without looking at the other snakes.
\<close>

theorem stepSnake_noOverlap:
  assumes i: "i < length (snakes g)"
    and ids: "distinct (map sid (snakes g))"
    and no: "noOverlap (snakes g)"
    and nc: "\<not> collides i g"
    and st: "stepSnake rnd i g = Some (Inr g')"
  shows "noOverlap (snakes g')"
proof -
  from st obtain g1 where d: "decide i g = Inr g1"
    by (cases "decide i g") (auto simp: stepSnake_def)
  from decide_snakes [OF d] obtain s2 where
    s2: "snakes g1 = (snakes g)[i := s2]" "body s2 = body (snakes g ! i)" "sid s2 = sid (snakes g ! i)"
    by blast
  from s2 i have si: "snakes g1 ! i = s2" by simp
  from st d si obtain b0 bs where bd: "body s2 = b0 # bs"
    by (cases "body s2") (auto simp: stepSnake_def Let_def)
  let ?head = "(fst b0 + dx s2, snd b0 + dy s2)"
  from nc d si bd have ncol: "\<not> collision g1 s2 ?head"
    by (simp add: collides_def Let_def)
  with st d si bd obtain adv: "advance rnd i g1 ?head = Some g'"
    by (auto simp: stepSnake_def Let_def)
  from advance_snakes [OF adv] si obtain b where
    b: "snakes g' = (snakes g1)[i := s2\<lparr>body := b\<rparr>]" "set b \<subseteq> insert ?head (set (body s2))"
    by auto
  have others: "\<forall>j<length (snakes g). j \<noteq> i \<longrightarrow> ?head \<notin> set (body (snakes g ! j))"
  proof (intro allI impI)
    fix j assume j: "j < length (snakes g)" and ji: "j \<noteq> i"
    from ids i j ji have "sid (snakes g ! j) \<noteq> sid (snakes g ! i)"
      by (auto simp: distinct_conv_nth)
    moreover from j ji s2 have "snakes g ! j \<in> set (snakes g1)"
      by (metis length_list_update nth_list_update_neq nth_mem)
    ultimately show "?head \<notin> set (body (snakes g ! j))"
      using ncol s2 by (auto simp: collision_def list_ex_iff)
  qed
  from b s2 have "snakes g' = (snakes g)[i := s2\<lparr>body := b\<rparr>]" by simp
  moreover have "noOverlap ((snakes g)[i := s2\<lparr>body := b\<rparr>])"
    using noOverlap_update [OF no i _ others, of b "s2\<lparr>body := b\<rparr>"] b s2 by simp
  ultimately show ?thesis by simp
qed

lemma noOverlap_gStart: "noOverlap (snakes gStart)"
  by (auto simp: noOverlap_def gStart_def numeral_2_eq_2 less_Suc_eq)

theorem stepSnake_noOverlap_witness:
  "distinct (map sid (snakes gStart)) \<and> noOverlap (snakes gStart) \<and> \<not> collides 0 gStart \<and>
   stepSnake rndSeq 0 gStart = Some (Inr gMid) \<and> noOverlap (snakes gMid)"
proof -
  have a: "0 < length (snakes gStart)" and b: "distinct (map sid (snakes gStart))"
    by (simp_all add: gStart_def)
  have d: "\<not> collides 0 gStart" by code_simp
  from stepSnake_noOverlap [OF a b noOverlap_gStart d stepSnake_gStart]
  show ?thesis using b d noOverlap_gStart stepSnake_gStart by simp
qed

text \<open>
  After the first tick of the game that \<^verbatim>\<open>resizeCanvas\<close> builds, snake 1 has
  been respawned onto the cell \<open>(2, 1)\<close>, which snake 0 occupies.
\<close>

theorem noOverlap_respawn_counterexample:
  "resizeCanvas rndSeq 160 160 1700000000007 0 = Some (Inr gStart) \<and>
   noOverlap (snakes gStart) \<and>
   gameLoop rndSeq gStart = Some (Inr gTick) \<and>
   sid (snakes gTick ! 0) \<noteq> sid (snakes gTick ! 1) \<and>
   (2, 1) \<in> set (body (snakes gTick ! 0)) \<inter> set (body (snakes gTick ! 1)) \<and>
   \<not> noOverlap (snakes gTick)"
proof -
  have s: "sid (snakes gTick ! 0) \<noteq> sid (snakes gTick ! 1)"
    and m: "(2, 1) \<in> set (body (snakes gTick ! 0)) \<inter> set (body (snakes gTick ! 1))"
    by (simp_all add: gTick_def gMid_def gStart_def)
  have l: "length (snakes gTick) = 2" by (simp add: gTick_def gMid_def gStart_def)
  have "\<not> noOverlap (snakes gTick)"
  proof
    assume "noOverlap (snakes gTick)"
    then have "(0::nat) \<noteq> 1 \<longrightarrow>
        set (body (snakes gTick ! 0)) \<inter> set (body (snakes gTick ! 1)) = {}"
      unfolding noOverlap_def using l by (simp del: One_nat_def)
    with m show False by auto
  qed
  with s m resizeCanvas_gStart noOverlap_gStart gameLoop_gStart show ?thesis by simp
qed

subsection \<open>C5: the obstacle list of an iteration\<close>

lemma respawn_snakes:
  assumes "respawn rnd i g = Inr g'"
  shows "\<exists>s. snakes g' = (snakes g)[i := s]"
  using assms by (auto simp: respawn_def Let_def split: option.splits sum.splits prod.splits)

lemma stepSnake_snakes:
  assumes "stepSnake rnd i g = Some (Inr g')"
  shows "\<exists>s. snakes g' = (snakes g)[i := s]"
proof -
  from assms obtain g1 where d: "decide i g = Inr g1"
    by (cases "decide i g") (auto simp: stepSnake_def)
  from decide_snakes [OF d] obtain s2 where s2: "snakes g1 = (snakes g)[i := s2]" by blast
  from assms d obtain b0 bs where bd: "body (snakes g1 ! i) = b0 # bs"
    by (cases "body (snakes g1 ! i)") (auto simp: stepSnake_def Let_def)
  let ?head = "(fst b0 + dx (snakes g1 ! i), snd b0 + dy (snakes g1 ! i))"
  show ?thesis
  proof (cases "collision g1 (snakes g1 ! i) ?head")
    case True
    with assms d bd have "respawn rnd i g1 = Inr g'" by (simp add: stepSnake_def Let_def)
    from respawn_snakes [OF this] s2 show ?thesis by auto
  next
    case False
    with assms d bd have "advance rnd i g1 ?head = Some g'"
      by (auto simp: stepSnake_def Let_def)
    from advance_snakes [OF this] s2 show ?thesis by auto
  qed
qed

lemma gameLoopOver_frame:
  "gameLoopOver rnd js g = Some (Inr g') \<Longrightarrow> \<forall>j\<in>set js. j < k \<Longrightarrow>
     length (snakes g') = length (snakes g) \<and> drop k (snakes g') = drop k (snakes g)"
proof (induction js arbitrary: g)
  case Nil
  then show ?case by simp
next
  case (Cons j js)
  from Cons.prems(1) obtain g1 where st: "stepSnake rnd j g = Some (Inr g1)"
    and rest: "gameLoopOver rnd js g1 = Some (Inr g')"
    by (auto split: option.splits sum.splits)
  from stepSnake_snakes [OF st] obtain s where s: "snakes g1 = (snakes g)[j := s]" by blast
  from Cons.prems(2) have "j < k" by simp
  with s have "length (snakes g1) = length (snakes g) \<and> drop k (snakes g1) = drop k (snakes g)"
    by simp
  with Cons.IH [OF rest] Cons.prems(2) show ?case by simp
qed

lemma gameLoopOver_append:
  "gameLoopOver rnd (xs @ ys) g =
     (case gameLoopOver rnd xs g of
        None \<Rightarrow> None
      | Some (Inl e) \<Rightarrow> Some (Inl e)
      | Some (Inr g') \<Rightarrow> gameLoopOver rnd ys g')"
  by (induction xs arbitrary: g) (auto split: option.splits sum.splits)

lemma otherParts_split:
  "otherParts i ss = concat (map body (take i ss)) @ concat (map body (drop (Suc i) ss))"
  by (simp add: otherParts_def)

lemma stepSnake_g12: "stepSnake rndSeq 0 g12 = Some (Inr g12m)"
  by code_simp

lemma resizeCanvas_g12: "resizeCanvas rndSeq 160 160 1700000000012 0 = Some (Inr g12)"
  by code_simp

lemma decide_moved:
  assumes "aiController g = Some ai"
  shows "decide i g =
           (case getNextMove ai (body (snakes g ! i)) (foods g) None (otherParts i (snakes g))
                   (sid (snakes g ! i)) (Some (snakeTargets g)) of
              Inl e \<Rightarrow> Inl e
            | Inr (mv, ai', ts) \<Rightarrow> Inr (moved i g mv ai' ts))"
  using assms by (simp add: decide_def moved_def Let_def split: sum.splits prod.splits)

lemma decide_frame:
  assumes "decide i g = Inr g1"
  shows "TILE_COLS g1 = TILE_COLS g \<and> TILE_ROWS g1 = TILE_ROWS g"
proof (cases "aiController g")
  case None
  with assms show ?thesis by (auto simp: decide_def Let_def)
next
  case (Some ai)
  with assms show ?thesis
    by (auto simp: decide_def Let_def split: sum.splits option.splits prod.splits)
qed

lemma stepSnake_collision:
  assumes i: "i < length (snakes g)" and d: "decide i g = Inr g1"
    and b: "body (snakes g ! i) = b0 # bs"
  shows "stepSnake rnd i g =
           (let s = snakes g1 ! i; head = (fst b0 + dx s, snd b0 + dy s)
            in if (fst head < 0 \<or> TILE_COLS g \<le> fst head \<or> snd head < 0 \<or> TILE_ROWS g \<le> snd head) \<or>
                  head \<in> set (body (snakes g ! i)) \<or>
                  list_ex (\<lambda>other. sid other \<noteq> sid (snakes g ! i) \<and> head \<in> set (body other))
                    (take i (snakes g) @ drop (Suc i) (snakes g))
               then Some (respawn rnd i g1) else map_option Inr (advance rnd i g1 head))"
proof -
  from decide_snakes [OF d] obtain s2 where s2: "snakes g1 = (snakes g)[i := s2]"
    "body s2 = body (snakes g ! i)" "sid s2 = sid (snakes g ! i)" by blast
  from s2(1) i have si: "snakes g1 ! i = s2" by simp
  from s2(1) i have sp: "snakes g1 = take i (snakes g) @ s2 # drop (Suc i) (snakes g)"
    by (simp add: upd_conv_take_nth_drop)
  have col: "collision g1 s2 head \<longleftrightarrow>
      (fst head < 0 \<or> TILE_COLS g \<le> fst head \<or> snd head < 0 \<or> TILE_ROWS g \<le> snd head) \<or>
      head \<in> set (body (snakes g ! i)) \<or>
      list_ex (\<lambda>other. sid other \<noteq> sid (snakes g ! i) \<and> head \<in> set (body other))
        (take i (snakes g) @ drop (Suc i) (snakes g))" for head
    using decide_frame [OF d] by (simp add: collision_def sp s2(2,3))
  show ?thesis
    using d b by (simp add: stepSnake_def Let_def si s2(2) col)
qed

text \<open>
  C5. In the state \<open>gi\<close> that the iterations \<open>0, \<dots>, i - 1\<close> of a tick leave,
  iteration \<open>i\<close> of \<^verbatim>\<open>gameLoop\<close> calls \<^verbatim>\<open>getNextMove\<close> with the obstacle list
  \<open>otherParts i\<close> of the \<^verbatim>\<open>snakes\<close> array as it stands then: the bodies that
  the snakes before \<open>i\<close> have after their own move of this tick, followed by
  the bodies that the snakes after \<open>i\<close> had when the tick started. The
  snake takes over the move returned for this list, and the collision test
  on its new head reads the bodies of the same live array. For \<open>i = 0\<close> the
  state \<open>gi\<close> is \<open>g\<close>: only the first snake decides against the state at the
  start of the tick.
\<close>

theorem gameLoop_obstacles:
  assumes "i < length (snakes g)" and "gameLoopOver rnd [0..<i] g = Some (Inr gi)"
  shows "gameLoop rnd g = gameLoopOver rnd [i..<length (snakes g)] gi \<and>
         otherParts i (snakes gi) =
           concat (map body (take i (snakes gi))) @ concat (map body (drop (Suc i) (snakes g))) \<and>
         body (snakes gi ! i) = body (snakes g ! i) \<and>
         (\<forall>ai. aiController gi = Some ai \<longrightarrow>
            decide i gi =
              (case getNextMove ai (body (snakes g ! i)) (foods gi) None
                      (concat (map body (take i (snakes gi))) @
                       concat (map body (drop (Suc i) (snakes g))))
                      (sid (snakes g ! i)) (Some (snakeTargets gi)) of
                 Inl e \<Rightarrow> Inl e
               | Inr (mv, ai', ts) \<Rightarrow> Inr (moved i gi mv ai' ts))) \<and>
         (\<forall>g1 b0 bs. decide i gi = Inr g1 \<longrightarrow> body (snakes g ! i) = b0 # bs \<longrightarrow>
            stepSnake rnd i gi =
              (let s = snakes g1 ! i; head = (fst b0 + dx s, snd b0 + dy s)
               in if (fst head < 0 \<or> TILE_COLS gi \<le> fst head \<or> snd head < 0 \<or>
                      TILE_ROWS gi \<le> snd head) \<or>
                     head \<in> set (body (snakes g ! i)) \<or>
                     list_ex (\<lambda>other. sid other \<noteq> sid (snakes g ! i) \<and> head \<in> set (body other))
                       (take i (snakes gi) @ drop (Suc i) (snakes g))
                  then Some (respawn rnd i g1) else map_option Inr (advance rnd i g1 head)))"
proof -
  have "[0..<length (snakes g)] = [0..<i] @ [i..<length (snakes g)]"
    using assms(1) by (metis le_add_diff_inverse less_imp_le_nat upt_add_eq_append zero_le)
  then have c1: "gameLoop rnd g = gameLoopOver rnd [i..<length (snakes g)] gi"
    using assms(2) by (simp add: gameLoop_def gameLoopOver_append)
  have fr: "length (snakes gi) = length (snakes g)" "drop i (snakes gi) = drop i (snakes g)"
    using gameLoopOver_frame [OF assms(2), of i] by simp_all
  have "drop (Suc i) (snakes gi) = drop 1 (drop i (snakes gi))" by simp
  also have "\<dots> = drop (Suc i) (snakes g)" by (simp add: fr)
  finally have dr: "drop (Suc i) (snakes gi) = drop (Suc i) (snakes g)" .
  then have c2: "otherParts i (snakes gi) =
      concat (map body (take i (snakes gi))) @ concat (map body (drop (Suc i) (snakes g)))"
    by (simp add: otherParts_split)
  have "snakes gi ! i = hd (drop i (snakes gi))"
    using assms(1) fr(1) by (simp add: hd_drop_conv_nth)
  also have "\<dots> = hd (drop i (snakes g))" by (simp only: fr(2))
  also have "\<dots> = snakes g ! i"
    using assms(1) by (simp add: hd_drop_conv_nth)
  finally have same: "snakes gi ! i = snakes g ! i" .
  have c4: "decide i gi =
              (case getNextMove ai (body (snakes g ! i)) (foods gi) None
                      (concat (map body (take i (snakes gi))) @
                       concat (map body (drop (Suc i) (snakes g))))
                      (sid (snakes g ! i)) (Some (snakeTargets gi)) of
                 Inl e \<Rightarrow> Inl e
               | Inr (mv, ai', ts) \<Rightarrow> Inr (moved i gi mv ai' ts))"
    if "aiController gi = Some ai" for ai
    using decide_moved [OF that, of i] by (simp only: c2 same)
  have il: "i < length (snakes gi)" using assms(1) fr(1) by simp
  have c5: "stepSnake rnd i gi =
              (let s = snakes g1 ! i; head = (fst b0 + dx s, snd b0 + dy s)
               in if (fst head < 0 \<or> TILE_COLS gi \<le> fst head \<or> snd head < 0 \<or>
                      TILE_ROWS gi \<le> snd head) \<or>
                     head \<in> set (body (snakes g ! i)) \<or>
                     list_ex (\<lambda>other. sid other \<noteq> sid (snakes g ! i) \<and> head \<in> set (body other))
                       (take i (snakes gi) @ drop (Suc i) (snakes g))
                  then Some (respawn rnd i g1) else map_option Inr (advance rnd i g1 head))"
    if "decide i gi = Inr g1" "body (snakes g ! i) = b0 # bs" for g1 b0 bs
    using stepSnake_collision [OF il that(1), of b0 bs rnd] that(2) by (simp only: same dr)
  from c1 c2 same c4 c5 show ?thesis by simp
qed

theorem gameLoop_obstacles_witness:
  "gameLoopOver rndSeq [0..<1] g12 = Some (Inr g12m) \<and>
   gameLoop rndSeq g12 = gameLoopOver rndSeq [1..<length (snakes g12)] g12m \<and>
   otherParts 1 (snakes g12m) = [(1, 3), (0, 3), (0, 2)] \<and>
   decide 1 g12m =
     (case getNextMove (ai44\<lparr>seed := 1721978789768\<rparr>) [(3, 1), (3, 2), (3, 3)] (foods g12m) None
             [(1, 3), (0, 3), (0, 2)] 1 (Some [(0, 4)]) of
        Inl e \<Rightarrow> Inl e
      | Inr (mv, ai', ts) \<Rightarrow> Inr (moved 1 g12m mv ai' ts))"
proof -
  have a: "1 < length (snakes g12)" by (simp add: g12_def)
  have b: "gameLoopOver rndSeq [0..<1] g12 = Some (Inr g12m)"
    using stepSnake_g12 by simp
  have c: "aiController g12m = Some (ai44\<lparr>seed := 1721978789768\<rparr>)"
    by (simp add: g12m_def g12_def)
  note T = gameLoop_obstacles [OF a b]
  from T have t1: "gameLoop rndSeq g12 = gameLoopOver rndSeq [1..<length (snakes g12)] g12m"
    by (rule conjunct1)
  from T have "otherParts 1 (snakes g12m) =
      concat (map body (take 1 (snakes g12m))) @ concat (map body (drop (Suc 1) (snakes g12)))"
    by (elim conjE)
  then have t2: "otherParts 1 (snakes g12m) = [(1, 3), (0, 3), (0, 2)]"
    by (simp add: g12m_def g12_def)
  from T have "\<forall>ai. aiController g12m = Some ai \<longrightarrow>
      decide 1 g12m =
        (case getNextMove ai (body (snakes g12 ! 1)) (foods g12m) None
                (concat (map body (take 1 (snakes g12m))) @
                 concat (map body (drop (Suc 1) (snakes g12))))
                (sid (snakes g12 ! 1)) (Some (snakeTargets g12m)) of
           Inl e \<Rightarrow> Inl e
         | Inr (mv, ai', ts) \<Rightarrow> Inr (moved 1 g12m mv ai' ts))"
    by (elim conjE)
  from this [rule_format, OF c] have t3: "decide 1 g12m =
     (case getNextMove (ai44\<lparr>seed := 1721978789768\<rparr>) [(3, 1), (3, 2), (3, 3)] (foods g12m) None
             [(1, 3), (0, 3), (0, 2)] 1 (Some [(0, 4)]) of
        Inl e \<Rightarrow> Inl e
      | Inr (mv, ai', ts) \<Rightarrow> Inr (moved 1 g12m mv ai' ts))"
    by (simp add: g12m_def g12_def)
  from b t1 t2 t3 show ?thesis by (intro conjI)
qed

text \<open>
  In the first tick of the game that \<^verbatim>\<open>resizeCanvas\<close> builds at clock value
  1700000000012, snake 0 moves from \<open>(0, 3)\<close> to \<open>(1, 3)\<close> and leaves
  \<open>(0, 1)\<close>. The obstacle list of snake 1 holds this new body: with it the
  five cells ahead are clear and \<^verbatim>\<open>getNextMove\<close> answers the cycle move up,
  which the snake takes. With the bodies of the start of the tick the cell
  \<open>(0, 1)\<close> would block the path and the answer would be a survival move
  to the left.
\<close>

theorem gameLoop_obstacles_counterexample:
  "resizeCanvas rndSeq 160 160 1700000000012 0 = Some (Inr g12) \<and>
   gameLoopOver rndSeq [0..<1] g12 = Some (Inr g12m) \<and>
   otherParts 1 (snakes g12) = [(0, 3), (0, 2), (0, 1)] \<and>
   otherParts 1 (snakes g12m) = [(1, 3), (0, 3), (0, 2)] \<and>
   map_sum id fst
     (getNextMove (ai44\<lparr>seed := 1721978789768\<rparr>) [(3, 1), (3, 2), (3, 3)] (foods g12m) None
        [(1, 3), (0, 3), (0, 2)] 1 (Some [(0, 4)])) =
     Inr (Some (Move 0 (- 1) ''cycle'' None None)) \<and>
   map_sum id fst
     (getNextMove (ai44\<lparr>seed := 1721978789768\<rparr>) [(3, 1), (3, 2), (3, 3)] (foods g12m) None
        [(0, 3), (0, 2), (0, 1)] 1 (Some [(0, 4)])) =
     Inr (Some (Move (- 1) 0 ''survival'' (Some ''Path Blocked Ahead'') (Some (- 140)))) \<and>
   map_sum id (\<lambda>g. (dx (snakes g ! 1), dy (snakes g ! 1))) (decide 1 g12m) = Inr (0, - 1)"
proof -
  have a: "gameLoopOver rndSeq [0..<1] g12 = Some (Inr g12m)"
    using stepSnake_g12 by simp
  have b: "otherParts 1 (snakes g12) = [(0, 3), (0, 2), (0, 1)]"
    "otherParts 1 (snakes g12m) = [(1, 3), (0, 3), (0, 2)]"
    by (simp_all add: otherParts_def g12m_def g12_def)
  have c: "map_sum id fst
     (getNextMove (ai44\<lparr>seed := 1721978789768\<rparr>) [(3, 1), (3, 2), (3, 3)] (foods g12m) None
        [(1, 3), (0, 3), (0, 2)] 1 (Some [(0, 4)])) =
     Inr (Some (Move 0 (- 1) ''cycle'' None None))" by code_simp
  have d: "map_sum id fst
     (getNextMove (ai44\<lparr>seed := 1721978789768\<rparr>) [(3, 1), (3, 2), (3, 3)] (foods g12m) None
        [(0, 3), (0, 2), (0, 1)] 1 (Some [(0, 4)])) =
     Inr (Some (Move (- 1) 0 ''survival'' (Some ''Path Blocked Ahead'') (Some (- 140))))"
    by code_simp
  have e: "map_sum id (\<lambda>g. (dx (snakes g ! 1), dy (snakes g ! 1))) (decide 1 g12m) = Inr (0, - 1)"
    by code_simp
  from resizeCanvas_g12 a b c d e show ?thesis by (intro conjI)
qed

subsection \<open>C10: the source of the respawn jitter\<close>

lemma agreeFrom_mono: "agreeFrom k r r' \<Longrightarrow> k \<le> m \<Longrightarrow> agreeFrom m r r'"
  by (simp add: agreeFrom_def)

lemma agreeFrom_sym: "agreeFrom k r r' \<Longrightarrow> agreeFrom k r' r"
  by (simp add: agreeFrom_def)

lemma spawnLoop_cong:
  "agreeFrom (mathRandomCalls g) rnd rnd' \<Longrightarrow> spawnLoop rnd g a = spawnLoop rnd' g a"
proof (induction rnd g a rule: spawnLoop.induct)
  case (1 rnd g attempts)
  show ?case
  proof (cases "attempts < 50")
    case False
    then show ?thesis by (subst (1 2) spawnLoop.simps) simp
  next
    case True
    let ?g' = "g\<lparr>mathRandomCalls := mathRandomCalls g + 2\<rparr>"
    have eq: "rnd (mathRandomCalls g) = rnd' (mathRandomCalls g)"
      "rnd (Suc (mathRandomCalls g)) = rnd' (Suc (mathRandomCalls g))"
      using "1.prems" by (simp_all add: agreeFrom_def)
    have ag: "agreeFrom (mathRandomCalls ?g') rnd rnd'"
      using "1.prems" by (simp add: agreeFrom_def)
    let ?newFood = "(\<lfloor>rnd (mathRandomCalls g) * of_int (TILE_COLS g)\<rfloor>,
                       \<lfloor>rnd (Suc (mathRandomCalls g)) * of_int (TILE_ROWS g)\<rfloor>)"
    show ?thesis
    proof (cases "occupied g ?newFood")
      case occ: True
      from "1.IH" [OF True refl refl _ ag] occ
      have "spawnLoop rnd ?g' (Suc attempts) = spawnLoop rnd' ?g' (Suc attempts)" by simp
      with occ True show ?thesis
        by (subst (1 2) spawnLoop.simps) (simp add: Let_def eq [symmetric])
    next
      case False
      with True show ?thesis
        by (subst (1 2) spawnLoop.simps) (simp add: Let_def eq [symmetric])
    qed
  qed
qed

lemma spawnLoop_mono: "mathRandomCalls g \<le> mathRandomCalls (spawnLoop rnd g a)"
proof (induction rnd g a rule: spawnLoop.induct)
  case (1 rnd g attempts)
  show ?case
  proof (cases "attempts < 50")
    case False
    then show ?thesis by (subst spawnLoop.simps) simp
  next
    case True
    with 1 [OF True refl refl] show ?thesis
      by (subst spawnLoop.simps) (auto simp: Let_def)
  qed
qed

lemma maintainFoodCount_mono:
  assumes "maintainFoodCount rnd g = Some g'"
  shows "mathRandomCalls g \<le> mathRandomCalls g'"
proof (rule maintainFoodCount.raw_induct
         [where P = "\<lambda>rnd g g'. mathRandomCalls g \<le> mathRandomCalls g'", OF _ assms])
  fix mfc :: "(nat \<Rightarrow> rat) \<Rightarrow> game \<Rightarrow> game option" and rnd g y
  assume IH: "\<And>a b y. mfc a b = Some y \<Longrightarrow> mathRandomCalls b \<le> mathRandomCalls y"
    and eq: "(if length (foods g) < 5 then mfc rnd (spawnSingleFood rnd g) else Some g) = Some y"
  show "mathRandomCalls g \<le> mathRandomCalls y"
  proof (cases "length (foods g) < 5")
    case True
    with eq have "mfc rnd (spawnSingleFood rnd g) = Some y" by simp
    from IH [OF this] spawnLoop_mono [of g rnd 0] show ?thesis
      by (simp add: spawnSingleFood_def)
  next
    case False
    with eq show ?thesis by simp
  qed
qed

lemma maintainFoodCount_cong_Some:
  assumes "maintainFoodCount rnd g = Some y" and "agreeFrom (mathRandomCalls g) rnd rnd'"
  shows "maintainFoodCount rnd' g = Some y"
proof -
  have "\<forall>r'. agreeFrom (mathRandomCalls g) rnd r' \<longrightarrow> maintainFoodCount r' g = Some y"
  proof (rule maintainFoodCount.raw_induct
      [where P = "\<lambda>rnd g y. \<forall>r'. agreeFrom (mathRandomCalls g) rnd r' \<longrightarrow>
                                 maintainFoodCount r' g = Some y", OF _ assms(1)])
    fix mfc :: "(nat \<Rightarrow> rat) \<Rightarrow> game \<Rightarrow> game option" and r g y
    assume IH: "\<And>a b y. mfc a b = Some y \<Longrightarrow>
        \<forall>r'. agreeFrom (mathRandomCalls b) a r' \<longrightarrow> maintainFoodCount r' b = Some y"
      and eq: "(if length (foods g) < 5 then mfc r (spawnSingleFood r g) else Some g) = Some y"
    show "\<forall>r'. agreeFrom (mathRandomCalls g) r r' \<longrightarrow> maintainFoodCount r' g = Some y"
    proof (intro allI impI)
      fix r' assume ag: "agreeFrom (mathRandomCalls g) r r'"
      show "maintainFoodCount r' g = Some y"
      proof (cases "length (foods g) < 5")
        case False
        with eq show ?thesis by (subst maintainFoodCount.simps) simp
      next
        case True
        with eq have m: "mfc r (spawnSingleFood r g) = Some y" by simp
        have sp: "spawnSingleFood r g = spawnSingleFood r' g"
          using spawnLoop_cong [OF ag] by (simp add: spawnSingleFood_def)
        have "agreeFrom (mathRandomCalls (spawnSingleFood r g)) r r'"
          using agreeFrom_mono [OF ag] spawnLoop_mono [of g r 0] by (simp add: spawnSingleFood_def)
        with IH [OF m] have "maintainFoodCount r' (spawnSingleFood r g) = Some y" by simp
        with True sp show ?thesis by (subst maintainFoodCount.simps) simp
      qed
    qed
  qed
  with assms(2) show ?thesis by simp
qed

lemma maintainFoodCount_cong:
  assumes "agreeFrom (mathRandomCalls g) rnd rnd'"
  shows "maintainFoodCount rnd g = maintainFoodCount rnd' g"
proof (cases "maintainFoodCount rnd g")
  case (Some y)
  with maintainFoodCount_cong_Some [OF Some assms] show ?thesis by simp
next
  case None
  show ?thesis
  proof (cases "maintainFoodCount rnd' g")
    case None': None
    with None show ?thesis by simp
  next
    case (Some y)
    from maintainFoodCount_cong_Some [OF Some agreeFrom_sym [OF assms]] None show ?thesis by simp
  qed
qed

lemma decide_calls:
  assumes "decide i g = Inr g1"
  shows "mathRandomCalls g1 = mathRandomCalls g"
proof (cases "aiController g")
  case None
  with assms show ?thesis by (auto simp: decide_def Let_def)
next
  case (Some ai)
  with assms show ?thesis
    by (auto simp: decide_def Let_def split: sum.splits option.splits prod.splits)
qed

lemma respawn_cong:
  "rnd (mathRandomCalls g) = rnd' (mathRandomCalls g) \<Longrightarrow> respawn rnd i g = respawn rnd' i g"
  by (simp add: respawn_def)

lemma advance_cong:
  assumes "agreeFrom (mathRandomCalls g) rnd rnd'"
  shows "advance rnd i g head = advance rnd' i g head"
proof (cases "findIndex (\<lambda>f. fst head = fst f \<and> snd head = snd f) (foods g)")
  case None
  then show ?thesis by (simp add: advance_def Let_def)
next
  case (Some k)
  then show ?thesis
    using assms by (simp add: advance_def Let_def maintainFoodCount_cong)
qed

lemma stepSnake_cong:
  assumes "agreeFrom (mathRandomCalls g) rnd rnd'"
  shows "stepSnake rnd i g = stepSnake rnd' i g"
proof (cases "decide i g")
  case (Inl e)
  then show ?thesis by (simp add: stepSnake_def)
next
  case (Inr g1)
  from decide_calls [OF Inr] assms have ag: "agreeFrom (mathRandomCalls g1) rnd rnd'" by simp
  then have "rnd (mathRandomCalls g1) = rnd' (mathRandomCalls g1)" by (simp add: agreeFrom_def)
  then have "respawn rnd i g1 = respawn rnd' i g1" by (rule respawn_cong)
  with advance_cong [OF ag] Inr show ?thesis
    by (simp add: stepSnake_def Let_def split: list.splits)
qed

lemma stepSnake_mono:
  assumes "stepSnake rnd i g = Some (Inr g')"
  shows "mathRandomCalls g \<le> mathRandomCalls g'"
proof -
  from assms obtain g1 where d: "decide i g = Inr g1"
    by (cases "decide i g") (auto simp: stepSnake_def)
  from assms d obtain b0 bs where bd: "body (snakes g1 ! i) = b0 # bs"
    by (cases "body (snakes g1 ! i)") (auto simp: stepSnake_def Let_def)
  let ?head = "(fst b0 + dx (snakes g1 ! i), snd b0 + dy (snakes g1 ! i))"
  have "mathRandomCalls g1 \<le> mathRandomCalls g'"
  proof (cases "collision g1 (snakes g1 ! i) ?head")
    case True
    with assms d bd have "respawn rnd i g1 = Inr g'" by (simp add: stepSnake_def Let_def)
    then show ?thesis
      by (auto simp: respawn_def Let_def split: option.splits sum.splits prod.splits)
  next
    case False
    with assms d bd have adv: "advance rnd i g1 ?head = Some g'"
      by (auto simp: stepSnake_def Let_def)
    show ?thesis
    proof (cases "findIndex (\<lambda>f. fst ?head = fst f \<and> snd ?head = snd f) (foods g1)")
      case None
      with adv show ?thesis by (auto simp: advance_def Let_def)
    next
      case (Some k)
      with adv obtain g2 where "maintainFoodCount rnd g2 = Some g'"
        and "mathRandomCalls g2 = mathRandomCalls g1"
        by (auto simp: advance_def Let_def)
      with maintainFoodCount_mono [of rnd g2 g'] show ?thesis by simp
    qed
  qed
  with decide_calls [OF d] show ?thesis by simp
qed

lemma gameLoopOver_cong:
  "agreeFrom (mathRandomCalls g) rnd rnd' \<Longrightarrow> gameLoopOver rnd js g = gameLoopOver rnd' js g"
proof (induction js arbitrary: g)
  case Nil
  then show ?case by simp
next
  case (Cons j js)
  note eq = stepSnake_cong [OF Cons.prems, of j]
  show ?case
  proof (cases "stepSnake rnd j g")
    case None
    with eq show ?thesis by simp
  next
    case (Some r)
    show ?thesis
    proof (cases r)
      case (Inl e)
      with Some eq show ?thesis by simp
    next
      case (Inr g1)
      from stepSnake_mono Some Inr have "mathRandomCalls g \<le> mathRandomCalls g1" by simp
      from Cons.IH [OF agreeFrom_mono [OF Cons.prems this]] Some Inr eq show ?thesis by simp
    qed
  qed
qed

text \<open>
  C10. The respawn jitter is \<^verbatim>\<open>Math.random() * 1000\<close>, a value of the host's
  unseeded generator, as are the food cells; only the cycle and the base of
  the start index come from the seeded stream. A tick is a function of the
  state, which holds the seed, and of the values that \<^verbatim>\<open>Math.random\<close> yields
  from the tick on, and a respawn depends on the one value that it consumes:
  two runs agree when these values agree.
\<close>

theorem gameLoop_Math_random:
  "(agreeFrom (mathRandomCalls g) rnd rnd' \<longrightarrow> gameLoop rnd g = gameLoop rnd' g) \<and>
   (rnd (mathRandomCalls g) = rnd' (mathRandomCalls g) \<longrightarrow> respawn rnd i g = respawn rnd' i g)"
proof (intro conjI impI)
  assume "agreeFrom (mathRandomCalls g) rnd rnd'"
  then show "gameLoop rnd g = gameLoop rnd' g"
    unfolding gameLoop_def by (rule gameLoopOver_cong)
next
  assume "rnd (mathRandomCalls g) = rnd' (mathRandomCalls g)"
  then show "respawn rnd i g = respawn rnd' i g" by (rule respawn_cong)
qed

theorem gameLoop_Math_random_witness:
  "gameLoop rndPast gStart = Some (Inr gTick) \<and> respawn rndPast 1 gMid = respawn rndSeq 1 gMid"
proof -
  have ag: "agreeFrom (mathRandomCalls gStart) rndSeq rndPast"
    by (simp add: agreeFrom_def rndPast_def gStart_def)
  have e: "rndPast (mathRandomCalls gMid) = rndSeq (mathRandomCalls gMid)"
    by (simp add: rndPast_def gMid_def gStart_def)
  from gameLoop_Math_random [of gStart rndSeq rndPast] ag gameLoop_gStart
  have "gameLoop rndPast gStart = Some (Inr gTick)" by simp
  moreover from gameLoop_Math_random [of gMid rndPast rndSeq 1] e
  have "respawn rndPast 1 gMid = respawn rndSeq 1 gMid" by simp
  ultimately show ?thesis by simp
qed

text \<open>
  Two runs of the first tick from the same state, hence with the same seed
  and the same collision of snake 1, under two \<^verbatim>\<open>Math.random\<close> streams that
  differ in the jitter: the seeded stream ends in the same state, the
  respawned bodies differ.
\<close>

theorem respawn_jitter_counterexample:
  "gameLoop rndSeq gStart = Some (Inr gTick) \<and> gameLoop rndAlt gStart = Some (Inr gTickAlt) \<and>
   aiController gTick = aiController gTickAlt \<and>
   body (snakes gTick ! 1) = [(2, 3), (2, 2), (2, 1)] \<and>
   body (snakes gTickAlt ! 1) = [(0, 2), (0, 1), (0, 0)]"
  using gameLoop_gStart gameLoop_gStart_alt
  by (simp add: gTickAlt_def gTick_def gMid_def gStart_def)

subsection \<open>C2: determinism of the seeded stream and of the cycle\<close>

lemma init88:
  "map_sum id hamiltonianCycle
     (init \<lparr>cols = 8, rows = 8, hamiltonianCycle = [], cycleMap = [], isInitialized = False,
            seed = 42\<rparr>) = Inr cycle88"
  by code_simp

lemma cycle88_perm: "length cycle88 = 64 \<and> distinct cycle88"
  by code_simp

text \<open>
  C2. The constructor stores \<^verbatim>\<open>seed || Date.now()\<close>: a seed other than \<open>0\<close>
  is kept, and then the controller, every output of \<^verbatim>\<open>random()\<close> and the
  cycle that \<^verbatim>\<open>init\<close> builds are functions of \<open>(cols, rows, seed)\<close> alone,
  whatever the clock reads. With the seed \<open>0\<close> the clock value is the seed.
\<close>

theorem seeded_determinism:
  assumes "s \<noteq> 0"
  shows "SnakeAI_new c r s now = SnakeAI_new c r s now' \<and>
         randoms n (SnakeAI_new c r s now) = randoms n (SnakeAI_new c r s now') \<and>
         init (SnakeAI_new c r s now) = init (SnakeAI_new c r s now')"
  using assms by (simp add: SnakeAI_new_def)

text \<open>
  Two builds of the 8x8 grid with seed 42 at different clock values: the same
  outputs of \<^verbatim>\<open>random()\<close> and the same sequence of 64 distinct positions.
\<close>

theorem seeded_determinism_witness:
  "randoms 3 (SnakeAI_new 8 8 42 1700000000000) = [2581720956, 1925393290, 3661312704] \<and>
   randoms 3 (SnakeAI_new 8 8 42 1700000000001) = [2581720956, 1925393290, 3661312704] \<and>
   map_sum id hamiltonianCycle (init (SnakeAI_new 8 8 42 1700000000000)) = Inr cycle88 \<and>
   map_sum id hamiltonianCycle (init (SnakeAI_new 8 8 42 1700000000001)) = Inr cycle88 \<and>
   length cycle88 = 64 \<and> distinct cycle88"
proof -
  have a: "randoms 3 (SnakeAI_new 8 8 42 1700000000000) = [2581720956, 1925393290, 3661312704]"
    by code_simp
  have b: "map_sum id hamiltonianCycle (init (SnakeAI_new 8 8 42 1700000000000)) = Inr cycle88"
    using init88 by (simp add: SnakeAI_new_def)
  from seeded_determinism [of 42 8 8 1700000000000 1700000000001 3] a b cycle88_perm
  show ?thesis by simp
qed

text \<open>
  Two controllers built with the same \<open>(cols, rows, seed) = (8, 8, 0)\<close> one
  millisecond apart: the first outputs of \<^verbatim>\<open>random()\<close> differ.
\<close>

theorem seed_zero_counterexample:
  "fst (random (SnakeAI_new 8 8 0 1700000000000)) = 1172569816 \<and>
   fst (random (SnakeAI_new 8 8 0 1700000000001)) = 1754838393"
  by code_simp

subsection \<open>C1: the Hamiltonian cycle of even grids\<close>



















lemma sedges_sym: "(p, q) \<in> sedges C \<Longrightarrow> (q, p) \<in> sedges C"
  by (auto simp: sedges_def)












lemma nbr_cong: "nbr m p S \<Longrightarrow> S = T \<Longrightarrow> nbr m p T"
  by simp














































end
